theory Spec2Isabelle
  imports Main "HOL-Library.Word"
begin

unbundle bit_operations_syntax

section \<open>Python values\<close>

text \<open>
  The client in \<^verbatim>\<open>gamejolt.py\<close> handles four kinds of Python values as request
  parameters: \<^verbatim>\<open>None\<close>, booleans, integers and strings. A Python \<^verbatim>\<open>str\<close> is a
  \<open>string\<close>; a character whose code is 128 or more stands for a non-ASCII character.
\<close>

type_synonym byte = "8 word"

datatype pyval = PNone | PBool bool | PInt int | PStr string

text \<open>Truth value of an object, as \<^verbatim>\<open>if x:\<close> and \<^verbatim>\<open>x and y\<close> test it.\<close>

fun truthy :: "pyval \<Rightarrow> bool" where
  "truthy PNone = False"
| "truthy (PBool b) = b"
| "truthy (PInt i) = (i \<noteq> 0)"
| "truthy (PStr s) = (s \<noteq> [])"

text \<open>\<^verbatim>\<open>x or y\<close>: the first operand when it is true, the second otherwise.\<close>

definition py_or :: "pyval \<Rightarrow> pyval \<Rightarrow> pyval" where
  "py_or x y = (if truthy x then x else y)"

definition digit_char :: "nat \<Rightarrow> char" where
  "digit_char n = ''0123456789'' ! n"

function show_nat :: "nat \<Rightarrow> string" where
  "show_nat n = (if n < 10 then [digit_char n] else show_nat (n div 10) @ [digit_char (n mod 10)])"
  by pat_completeness auto
termination
  by (relation "measure id") auto

declare show_nat.simps [simp del]

definition show_int :: "int \<Rightarrow> string" where
  "show_int i = (if i < 0 then CHR ''-'' # show_nat (nat (- i)) else show_nat (nat i))"

text \<open>\<^verbatim>\<open>str(v)\<close>, which \<^verbatim>\<open>urlencode\<close> applies to every value that is not a string.\<close>

fun py_str :: "pyval \<Rightarrow> string" where
  "py_str PNone = ''None''"
| "py_str (PBool b) = (if b then ''True'' else ''False'')"
| "py_str (PInt i) = show_int i"
| "py_str (PStr s) = s"

section \<open>Dictionaries\<close>

text \<open>
  A \<^verbatim>\<open>dict\<close> keeps its keys in insertion order, and \<^verbatim>\<open>urlencode\<close> walks it in
  that order: an association list with distinct keys. Assigning to a key that is present
  replaces the value in place; assigning to a new key appends it.
\<close>

type_synonym dict = "(string \<times> pyval) list"

fun setitem :: "dict \<Rightarrow> string \<Rightarrow> pyval \<Rightarrow> dict" where
  "setitem [] k v = [(k, v)]"
| "setitem ((k', v') # d) k v = (if k' = k then (k, v) # d else (k', v') # setitem d k v)"

definition keys :: "dict \<Rightarrow> string set" where
  "keys d = fst ` set d"

section \<open>The standard library: \<^verbatim>\<open>urllib.parse\<close>\<close>

text \<open>
  \<^verbatim>\<open>urlencode(query)\<close> with its default arguments joins \<^verbatim>\<open>quote_plus(k) + '=' + quote_plus(str(v))\<close>
  with \<^verbatim>\<open>'&'\<close>. \<^verbatim>\<open>quote_plus\<close> encodes the string as UTF-8, keeps the bytes of
  letters, digits and \<^verbatim>\<open>_.-~\<close>, writes a space as \<^verbatim>\<open>+\<close> and every other byte as
  \<^verbatim>\<open>%XX\<close> in upper-case hexadecimal.
\<close>

definition always_safe :: "char \<Rightarrow> bool" where
  "always_safe c =
     (c \<in> set ''ABCDEFGHIJKLMNOPQRSTUVWXYZabcdefghijklmnopqrstuvwxyz0123456789_.-~'')"

definition upper_hex_digit :: "nat \<Rightarrow> char" where
  "upper_hex_digit n = ''0123456789ABCDEF'' ! n"

definition percent :: "nat \<Rightarrow> string" where
  "percent b = [CHR ''%'', upper_hex_digit (b div 16), upper_hex_digit (b mod 16)]"

definition quote_char :: "char \<Rightarrow> string" where
  "quote_char c =
     (let n = (of_char c :: nat) in
      if always_safe c then [c]
      else if c = CHR '' '' then ''+''
      else if n < 128 then percent n
      else percent (192 + n div 64) @ percent (128 + n mod 64))"

definition quote_plus :: "string \<Rightarrow> string" where
  "quote_plus s = concat (map quote_char s)"

fun join :: "string \<Rightarrow> string list \<Rightarrow> string" where
  "join sep [] = []"
| "join sep [x] = x"
| "join sep (x # y # ys) = x @ sep @ join sep (y # ys)"

definition urlencode :: "dict \<Rightarrow> string" where
  "urlencode query = join ''&'' (map (\<lambda>(k, v). quote_plus k @ ''='' @ quote_plus (py_str v)) query)"

text \<open>
  \<^verbatim>\<open>urljoin(base, url)\<close> for the one base the class assigns (in \<^verbatim>\<open>__init__\<close>, ending
  in \<^verbatim>\<open>/\<close>) and a relative path without scheme, leading slash or dot segment: the
  path is appended to the base.
\<close>

definition urljoin :: "string \<Rightarrow> string \<Rightarrow> string" where
  "urljoin base url = base @ url"

section \<open>The standard library: \<^verbatim>\<open>hashlib.sha1\<close>\<close>

text \<open>
  SHA-1 as FIPS 180 defines it, on bytes: padding to a multiple of 64 bytes, the 80-word
  message schedule, 80 rounds per block, and the digest as the 20 bytes of the five state
  words, most significant byte first.
\<close>

type_synonym u32 = "32 word"

definition pad_zeros :: "nat \<Rightarrow> nat" where
  "pad_zeros n = (if (n + 1) mod 64 \<le> 56 then 56 - (n + 1) mod 64 else 120 - (n + 1) mod 64)"

definition length_bytes :: "64 word \<Rightarrow> byte list" where
  "length_bytes n = map (\<lambda>i. ucast (drop_bit (8 * i) n)) [7, 6, 5, 4, 3, 2, 1, 0]"

definition sha1_pad :: "byte list \<Rightarrow> byte list" where
  "sha1_pad m = m @ [0x80] @ replicate (pad_zeros (length m)) 0 @ length_bytes (of_nat (8 * length m))"

fun be_words :: "byte list \<Rightarrow> u32 list" where
  "be_words (a # b # c # d # bs) =
     (push_bit 24 (ucast a) OR push_bit 16 (ucast b) OR push_bit 8 (ucast c) OR ucast d) # be_words bs"
| "be_words _ = []"

fun chunks :: "nat \<Rightarrow> 'a list \<Rightarrow> 'a list list" where
  "chunks 0 xs = []"
| "chunks (Suc k) xs = take 16 xs # chunks k (drop 16 xs)"

text \<open>Rotation to the left by \<open>n\<close> bits, \<open>0 < n < 32\<close>: \<^verbatim>\<open>(w << n) | (w >> (32 - n))\<close>.\<close>

definition rotl :: "nat \<Rightarrow> u32 \<Rightarrow> u32" where
  "rotl n w = push_bit n w OR drop_bit (32 - n) w"

text \<open>The schedule is built newest word first, so \<open>ws ! 2\<close> is the word three steps back.\<close>

fun schedule :: "nat \<Rightarrow> u32 list \<Rightarrow> u32 list" where
  "schedule 0 ws = ws"
| "schedule (Suc k) ws =
     schedule k (rotl 1 (ws ! 2 XOR ws ! 7 XOR ws ! 13 XOR ws ! 15) # ws)"

definition sha1_f :: "nat \<Rightarrow> u32 \<Rightarrow> u32 \<Rightarrow> u32 \<Rightarrow> u32" where
  "sha1_f t b c d =
     (if t < 20 then (b AND c) OR (NOT b AND d)
      else if t < 40 then b XOR c XOR d
      else if t < 60 then (b AND c) OR (b AND d) OR (c AND d)
      else b XOR c XOR d)"

definition sha1_k :: "nat \<Rightarrow> u32" where
  "sha1_k t = (if t < 20 then 0x5A827999 else if t < 40 then 0x6ED9EBA1
               else if t < 60 then 0x8F1BBCDC else 0xCA62C1D6)"

type_synonym sha1_state = "u32 \<times> u32 \<times> u32 \<times> u32 \<times> u32"

fun sha1_round :: "sha1_state \<Rightarrow> nat \<times> u32 \<Rightarrow> sha1_state" where
  "sha1_round (a, b, c, d, e) (t, w) =
     (rotl 5 a + sha1_f t b c d + e + sha1_k t + w, a, rotl 30 b, c, d)"

fun sha1_block :: "sha1_state \<Rightarrow> u32 list \<Rightarrow> sha1_state" where
  "sha1_block (h0, h1, h2, h3, h4) ws =
     (case foldl sha1_round (h0, h1, h2, h3, h4) (zip [0..<80] (rev (schedule 64 (rev ws)))) of
        (a, b, c, d, e) \<Rightarrow> (h0 + a, h1 + b, h2 + c, h3 + d, h4 + e))"

definition sha1_init :: sha1_state where
  "sha1_init = (0x67452301, 0xEFCDAB89, 0x98BADCFE, 0x10325476, 0xC3D2E1F0)"

definition word_bytes :: "u32 \<Rightarrow> byte list" where
  "word_bytes w = [ucast (drop_bit 24 w), ucast (drop_bit 16 w), ucast (drop_bit 8 w), ucast w]"

definition sha1 :: "byte list \<Rightarrow> byte list" where
  "sha1 m =
     (let ws = be_words (sha1_pad m) in
      case foldl sha1_block sha1_init (chunks (length ws div 16) ws) of
        (h0, h1, h2, h3, h4) \<Rightarrow> concat (map word_bytes [h0, h1, h2, h3, h4]))"

text \<open>\<^verbatim>\<open>hexdigest()\<close>: two lower-case hexadecimal digits per byte.\<close>

definition lower_hex :: string where
  "lower_hex = ''0123456789abcdef''"

definition hex_digit :: "nat \<Rightarrow> char" where
  "hex_digit n = lower_hex ! n"

definition hexdigest :: "byte list \<Rightarrow> string" where
  "hexdigest bs = concat (map (\<lambda>b. [hex_digit (unat b div 16), hex_digit (unat b mod 16)]) bs)"

section \<open>The client object\<close>

text \<open>
  Two exceptions can leave a method of the client on the caller's side: the
  \<^verbatim>\<open>AssertionError\<close> of \<^verbatim>\<open>data_store_update\<close> and the \<^verbatim>\<open>UnicodeEncodeError\<close> of
  \<^verbatim>\<open>bytearray(..., encoding='ascii')\<close>.
\<close>

datatype error = AssertionError | UnicodeEncodeError

text \<open>
  The handle \<^verbatim>\<open>executor.submit\<close> returns: the future of \<^verbatim>\<open>_get_response\<close>
  applied to this signed URL.
\<close>

datatype future = Future string

text \<open>
  The fields of \<^verbatim>\<open>GameJoltAPI\<close>, and with them the objects its methods reach:
  \<^item> \<open>values_ref\<close> is the reference held in \<^verbatim>\<open>self._values\<close>, an index into \<open>heap\<close>,
    the store of dictionary objects (\<^verbatim>\<open>copy()\<close> allocates a new one, item assignment
    updates one in place);
  \<^item> \<open>executor\<close> is the queue of the single worker: the signed URLs of the tasks
    submitted so far, oldest first;
  \<^item> \<open>lru\<close> is the cache that \<^verbatim>\<open>@lru_cache()\<close> puts in front of
    \<^verbatim>\<open>_encode_signed_url\<close>: pairs of unsigned and signed URL, most recently used
    first. The cache belongs to the function and its keys are pairs of client and URL, so
    the clients of one process share its places; the model follows a process with one
    client.
\<close>

record client =
  game_id :: pyval
  private_key :: string
  username :: pyval
  token :: pyval
  base_url :: string
  values_ref :: nat
  executor :: "string list"
  heap :: "dict list"
  lru :: "(string \<times> string) list"

definition GameJoltAPI :: "pyval \<Rightarrow> string \<Rightarrow> pyval \<Rightarrow> pyval \<Rightarrow> client" where
  "GameJoltAPI gid key user tok =
     \<lparr>game_id = gid, private_key = key, username = user, token = tok,
      base_url = ''http://api.gamejolt.com/api/game/v1/'',
      values_ref = 0, executor = [],
      heap = [(''format'', PStr ''json''), (''game_id'', gid)] # [],
      lru = []\<rparr>"

definition dict_copy :: "client \<Rightarrow> nat \<Rightarrow> nat \<times> client" where
  "dict_copy s a = (length (heap s), s\<lparr>heap := heap s @ [heap s ! a]\<rparr>)"

definition dict_setitem :: "client \<Rightarrow> nat \<Rightarrow> string \<Rightarrow> pyval \<Rightarrow> client" where
  "dict_setitem s a k v = s\<lparr>heap := (heap s)[a := setitem (heap s ! a) k v]\<rparr>"

section \<open>Signing\<close>

definition is_ascii :: "char \<Rightarrow> bool" where
  "is_ascii c = ((of_char c :: nat) < 128)"

text \<open>\<^verbatim>\<open>bytearray(s, encoding='ascii')\<close>.\<close>

definition ascii_bytes :: "string \<Rightarrow> error + byte list" where
  "ascii_bytes s = (if list_all is_ascii s then Inr (map of_char s) else Inl UnicodeEncodeError)"

text \<open>The body of \<^verbatim>\<open>_encode_signed_url\<close>, as it runs on a cache miss.\<close>

definition sign_url :: "string \<Rightarrow> string \<Rightarrow> error + string" where
  "sign_url key url =
     (case ascii_bytes (url @ key) of
        Inl e \<Rightarrow> Inl e
      | Inr url_bytes \<Rightarrow>
          (let signature = hexdigest (sha1 url_bytes);
               parameter = urlencode [(''signature'', PStr signature)]
           in Inr (url @ ''&'' @ parameter)))"

text \<open>
  \<^verbatim>\<open>functools.lru_cache()\<close> called without arguments has \<^verbatim>\<open>maxsize=128\<close>. A hit
  moves the entry to the front and returns the stored result. A miss calls the function;
  an exception propagates and stores nothing; a result is stored at the front, after the
  least recently used entry has been dropped when the cache is full.
\<close>

definition lru_maxsize :: nat where
  "lru_maxsize = 128"

definition encode_signed_url :: "client \<Rightarrow> string \<Rightarrow> (error + string) \<times> client" where
  "encode_signed_url s url =
     (case map_of (lru s) url of
        Some res \<Rightarrow> (Inr res, s\<lparr>lru := (url, res) # filter (\<lambda>p. fst p \<noteq> url) (lru s)\<rparr>)
      | None \<Rightarrow>
          (case sign_url (private_key s) url of
             Inl e \<Rightarrow> (Inl e, s)
           | Inr res \<Rightarrow>
               (Inr res,
                s\<lparr>lru := (url, res) #
                   (if length (lru s) \<ge> lru_maxsize then butlast (lru s) else lru s)\<rparr>)))"

section \<open>Submission\<close>

definition unsigned_url :: "string \<Rightarrow> dict \<Rightarrow> string" where
  "unsigned_url endpoint d = endpoint @ ''?'' @ urlencode d"

text \<open>\<^verbatim>\<open>_submit(endpoint, values)\<close>; \<open>vals\<close> is the reference to the dictionary.\<close>

definition submit :: "client \<Rightarrow> string \<Rightarrow> nat \<Rightarrow> (error + future) \<times> client" where
  "submit s endpoint vals =
     (let url = unsigned_url endpoint (heap s ! vals) in
      case encode_signed_url s url of
        (Inl e, s') \<Rightarrow> (Inl e, s')
      | (Inr signed_url, s') \<Rightarrow>
          (Inr (Future signed_url), s'\<lparr>executor := executor s' @ [signed_url]\<rparr>))"

section \<open>The endpoint methods\<close>

text \<open>
  Every method assembles its parameters in a dictionary and hands it to \<^verbatim>\<open>_submit\<close>.
  The assembly, up to the final \<^verbatim>\<open>return self._submit(endpoint, values)\<close>, is the
  function \<open>m_values\<close>: it returns the endpoint, the reference to the dictionary and the
  client after the assignments. The method \<open>m\<close> is the assembly followed by \<open>submit\<close>.
\<close>

definition request_params :: "(string \<times> nat) \<times> client \<Rightarrow> dict" where
  "request_params r = (case r of ((endpoint, vals), s) \<Rightarrow> heap s ! vals)"

definition session_open_values :: "client \<Rightarrow> (string \<times> nat) \<times> client" where
  "session_open_values s =
     (let endpoint = urljoin (base_url s) ''sessions/open/'';
          (vals, s) = dict_copy s (values_ref s);
          s = dict_setitem s vals ''username'' (username s);
          s = dict_setitem s vals ''user_token'' (token s)
      in ((endpoint, vals), s))"

definition session_open :: "client \<Rightarrow> (error + future) \<times> client" where
  "session_open s =
     (case session_open_values s of ((endpoint, vals), s') \<Rightarrow> submit s' endpoint vals)"

definition session_ping_values :: "client \<Rightarrow> pyval \<Rightarrow> (string \<times> nat) \<times> client" where
  "session_ping_values s idle =
     (let endpoint = urljoin (base_url s) ''sessions/ping/'';
          (vals, s) = dict_copy s (values_ref s);
          s = dict_setitem s vals ''username'' (username s);
          s = dict_setitem s vals ''user_token'' (token s);
          s = (if truthy idle then dict_setitem s vals ''status'' (PStr ''idle'')
               else dict_setitem s vals ''status'' (PStr ''active''))
      in ((endpoint, vals), s))"

definition session_ping :: "client \<Rightarrow> pyval \<Rightarrow> (error + future) \<times> client" where
  "session_ping s idle =
     (case session_ping_values s idle of ((endpoint, vals), s') \<Rightarrow> submit s' endpoint vals)"

definition session_close_values :: "client \<Rightarrow> (string \<times> nat) \<times> client" where
  "session_close_values s =
     (let endpoint = urljoin (base_url s) ''sessions/close/'';
          (vals, s) = dict_copy s (values_ref s);
          s = dict_setitem s vals ''username'' (username s);
          s = dict_setitem s vals ''user_token'' (token s)
      in ((endpoint, vals), s))"

definition session_close :: "client \<Rightarrow> (error + future) \<times> client" where
  "session_close s =
     (case session_close_values s of ((endpoint, vals), s') \<Rightarrow> submit s' endpoint vals)"

definition trophies_fetch_values :: "client \<Rightarrow> pyval \<Rightarrow> pyval \<Rightarrow> (string \<times> nat) \<times> client" where
  "trophies_fetch_values s achieved trophy_id =
     (let endpoint = urljoin (base_url s) ''trophies/'';
          (vals, s) = dict_copy s (values_ref s);
          s = dict_setitem s vals ''username'' (username s);
          s = dict_setitem s vals ''user_token'' (token s);
          s = (if truthy achieved then dict_setitem s vals ''achieved'' (PStr ''true'') else s);
          s = (if truthy trophy_id then dict_setitem s vals ''trophy_id'' trophy_id else s)
      in ((endpoint, vals), s))"

definition trophies_fetch :: "client \<Rightarrow> pyval \<Rightarrow> pyval \<Rightarrow> (error + future) \<times> client" where
  "trophies_fetch s achieved trophy_id =
     (case trophies_fetch_values s achieved trophy_id of ((endpoint, vals), s') \<Rightarrow> submit s' endpoint vals)"

definition trophies_add_achieved_values :: "client \<Rightarrow> pyval \<Rightarrow> (string \<times> nat) \<times> client" where
  "trophies_add_achieved_values s trophy_id =
     (let endpoint = urljoin (base_url s) ''trophies/add-achieved/'';
          (vals, s) = dict_copy s (values_ref s);
          s = dict_setitem s vals ''username'' (username s);
          s = dict_setitem s vals ''user_token'' (token s);
          s = dict_setitem s vals ''trophy_id'' trophy_id
      in ((endpoint, vals), s))"

definition trophies_add_achieved :: "client \<Rightarrow> pyval \<Rightarrow> (error + future) \<times> client" where
  "trophies_add_achieved s trophy_id =
     (case trophies_add_achieved_values s trophy_id of ((endpoint, vals), s') \<Rightarrow> submit s' endpoint vals)"

definition scores_fetch_values :: "client \<Rightarrow> pyval \<Rightarrow> pyval \<Rightarrow> (string \<times> nat) \<times> client" where
  "scores_fetch_values s table_id limit =
     (let endpoint = urljoin (base_url s) ''scores/'';
          (vals, s) = dict_copy s (values_ref s);
          s = dict_setitem s vals ''limit'' limit;
          s = (if truthy table_id then dict_setitem s vals ''table_id'' table_id else s)
      in ((endpoint, vals), s))"

definition scores_fetch :: "client \<Rightarrow> pyval \<Rightarrow> pyval \<Rightarrow> (error + future) \<times> client" where
  "scores_fetch s table_id limit =
     (case scores_fetch_values s table_id limit of ((endpoint, vals), s') \<Rightarrow> submit s' endpoint vals)"

definition scores_add_values :: "client \<Rightarrow> pyval \<Rightarrow> pyval \<Rightarrow> pyval \<Rightarrow> (string \<times> nat) \<times> client" where
  "scores_add_values s sort_val score table_id =
     (let endpoint = urljoin (base_url s) ''scores/add/'';
          (vals, s) = dict_copy s (values_ref s);
          s = (if truthy (username s) \<and> truthy (token s)
               then dict_setitem (dict_setitem s vals ''username'' (username s)) vals ''user_token'' (token s)
               else dict_setitem s vals ''guest'' (PStr ''Guest''));
          s = dict_setitem s vals ''sort'' sort_val;
          s = dict_setitem s vals ''score'' (py_or score sort_val);
          s = (if truthy table_id then dict_setitem s vals ''table_id'' table_id else s)
      in ((endpoint, vals), s))"

definition scores_add :: "client \<Rightarrow> pyval \<Rightarrow> pyval \<Rightarrow> pyval \<Rightarrow> (error + future) \<times> client" where
  "scores_add s sort_val score table_id =
     (case scores_add_values s sort_val score table_id of ((endpoint, vals), s') \<Rightarrow> submit s' endpoint vals)"

text \<open>\<^verbatim>\<open>scores_tables\<close> passes \<^verbatim>\<open>self._values\<close> itself, not a copy.\<close>

definition scores_tables_values :: "client \<Rightarrow> (string \<times> nat) \<times> client" where
  "scores_tables_values s =
     (let endpoint = urljoin (base_url s) ''scores/tables/''
      in ((endpoint, values_ref s), s))"

definition scores_tables :: "client \<Rightarrow> (error + future) \<times> client" where
  "scores_tables s =
     (case scores_tables_values s of ((endpoint, vals), s') \<Rightarrow> submit s' endpoint vals)"

definition data_store_fetch_values :: "client \<Rightarrow> pyval \<Rightarrow> pyval \<Rightarrow> (string \<times> nat) \<times> client" where
  "data_store_fetch_values s key public =
     (let endpoint = urljoin (base_url s) ''data-store/'';
          (vals, s) = dict_copy s (values_ref s);
          s = dict_setitem s vals ''key'' key;
          s = (if truthy (username s) \<and> truthy (token s) \<and> \<not> truthy public
               then dict_setitem (dict_setitem s vals ''username'' (username s)) vals ''user_token'' (token s)
               else s)
      in ((endpoint, vals), s))"

definition data_store_fetch :: "client \<Rightarrow> pyval \<Rightarrow> pyval \<Rightarrow> (error + future) \<times> client" where
  "data_store_fetch s key public =
     (case data_store_fetch_values s key public of ((endpoint, vals), s') \<Rightarrow> submit s' endpoint vals)"

definition data_store_set_values :: "client \<Rightarrow> pyval \<Rightarrow> pyval \<Rightarrow> pyval \<Rightarrow> (string \<times> nat) \<times> client" where
  "data_store_set_values s key data public =
     (let endpoint = urljoin (base_url s) ''data-store/set/'';
          (vals, s) = dict_copy s (values_ref s);
          s = dict_setitem s vals ''key'' key;
          s = dict_setitem s vals ''data'' data;
          s = (if truthy (username s) \<and> truthy (token s) \<and> \<not> truthy public
               then dict_setitem (dict_setitem s vals ''username'' (username s)) vals ''user_token'' (token s)
               else s)
      in ((endpoint, vals), s))"

definition data_store_set :: "client \<Rightarrow> pyval \<Rightarrow> pyval \<Rightarrow> pyval \<Rightarrow> (error + future) \<times> client" where
  "data_store_set s key data public =
     (case data_store_set_values s key data public of ((endpoint, vals), s') \<Rightarrow> submit s' endpoint vals)"

definition valid_operations :: "pyval list" where
  "valid_operations =
     [PStr ''add'', PStr ''subtract'', PStr ''multiply'', PStr ''divide'', PStr ''append'',
      PStr ''prepend'']"

text \<open>The part of \<^verbatim>\<open>data_store_update\<close> after its \<^verbatim>\<open>assert\<close>.\<close>

definition data_store_update_values :: "client \<Rightarrow> pyval \<Rightarrow> pyval \<Rightarrow> pyval \<Rightarrow> pyval \<Rightarrow> (string \<times> nat) \<times> client" where
  "data_store_update_values s key operation val public =
     (let endpoint = urljoin (base_url s) ''data-store/update/'';
          (vals, s) = dict_copy s (values_ref s);
          s = dict_setitem s vals ''key'' key;
          s = dict_setitem s vals ''operation'' operation;
          s = dict_setitem s vals ''value'' val;
          s = (if truthy (username s) \<and> truthy (token s) \<and> \<not> truthy public
               then dict_setitem (dict_setitem s vals ''username'' (username s)) vals ''user_token'' (token s)
               else s)
      in ((endpoint, vals), s))"

text \<open>
  The check of the operation is an \<^verbatim>\<open>assert\<close> statement, which the interpreter
  executes only when \<^verbatim>\<open>__debug__\<close> is true. It is true by default and false when
  Python runs with \<^verbatim>\<open>-O\<close>; \<open>debug\<close> is that flag.
\<close>

definition data_store_update ::
  "bool \<Rightarrow> client \<Rightarrow> pyval \<Rightarrow> pyval \<Rightarrow> pyval \<Rightarrow> pyval \<Rightarrow> (error + future) \<times> client" where
  "data_store_update debug s key operation val public =
     (if debug \<and> operation \<notin> set valid_operations then (Inl AssertionError, s)
      else case data_store_update_values s key operation val public of
             ((endpoint, vals), s') \<Rightarrow> submit s' endpoint vals)"

definition data_store_remove_values :: "client \<Rightarrow> pyval \<Rightarrow> pyval \<Rightarrow> (string \<times> nat) \<times> client" where
  "data_store_remove_values s key public =
     (let endpoint = urljoin (base_url s) ''data-store/remove/'';
          (vals, s) = dict_copy s (values_ref s);
          s = dict_setitem s vals ''key'' key;
          s = (if truthy (username s) \<and> truthy (token s) \<and> \<not> truthy public
               then dict_setitem (dict_setitem s vals ''username'' (username s)) vals ''user_token'' (token s)
               else s)
      in ((endpoint, vals), s))"

definition data_store_remove :: "client \<Rightarrow> pyval \<Rightarrow> pyval \<Rightarrow> (error + future) \<times> client" where
  "data_store_remove s key public =
     (case data_store_remove_values s key public of ((endpoint, vals), s') \<Rightarrow> submit s' endpoint vals)"

definition data_store_get_keys_values :: "client \<Rightarrow> pyval \<Rightarrow> (string \<times> nat) \<times> client" where
  "data_store_get_keys_values s public =
     (let endpoint = urljoin (base_url s) ''data-store/get-keys/'';
          (vals, s) = dict_copy s (values_ref s);
          s = (if truthy (username s) \<and> truthy (token s) \<and> \<not> truthy public
               then dict_setitem (dict_setitem s vals ''username'' (username s)) vals ''user_token'' (token s)
               else s)
      in ((endpoint, vals), s))"

definition data_store_get_keys :: "client \<Rightarrow> pyval \<Rightarrow> (error + future) \<times> client" where
  "data_store_get_keys s public =
     (case data_store_get_keys_values s public of ((endpoint, vals), s') \<Rightarrow> submit s' endpoint vals)"

text \<open>
  A call of any one of the thirteen methods, with its arguments; \<open>perform debug s c\<close>
  makes the call \<open>c\<close> on the client \<open>s\<close> in an interpreter whose \<^verbatim>\<open>__debug__\<close> is
  \<open>debug\<close>.
\<close>

datatype call =
    Session_open
  | Session_ping pyval
  | Session_close
  | Trophies_fetch pyval pyval
  | Trophies_add_achieved pyval
  | Scores_fetch pyval pyval
  | Scores_add pyval pyval pyval
  | Scores_tables
  | Data_store_fetch pyval pyval
  | Data_store_set pyval pyval pyval
  | Data_store_update pyval pyval pyval pyval
  | Data_store_remove pyval pyval
  | Data_store_get_keys pyval

fun perform :: "bool \<Rightarrow> client \<Rightarrow> call \<Rightarrow> (error + future) \<times> client" where
  "perform debug s Session_open = session_open s"
| "perform debug s (Session_ping idle) = session_ping s idle"
| "perform debug s Session_close = session_close s"
| "perform debug s (Trophies_fetch achieved trophy_id) = trophies_fetch s achieved trophy_id"
| "perform debug s (Trophies_add_achieved trophy_id) = trophies_add_achieved s trophy_id"
| "perform debug s (Scores_fetch table_id limit) = scores_fetch s table_id limit"
| "perform debug s (Scores_add sort_val score table_id) = scores_add s sort_val score table_id"
| "perform debug s Scores_tables = scores_tables s"
| "perform debug s (Data_store_fetch key public) = data_store_fetch s key public"
| "perform debug s (Data_store_set key data public) = data_store_set s key data public"
| "perform debug s (Data_store_update key operation val public) =
     data_store_update debug s key operation val public"
| "perform debug s (Data_store_remove key public) = data_store_remove s key public"
| "perform debug s (Data_store_get_keys public) = data_store_get_keys s public"

text \<open>Signing a sequence of URLs, one call of \<^verbatim>\<open>_encode_signed_url\<close> after the other.\<close>

fun sign_all :: "client \<Rightarrow> string list \<Rightarrow> client" where
  "sign_all s [] = s"
| "sign_all s (url # urls) = sign_all (snd (encode_signed_url s url)) urls"

section \<open>The worker: \<^verbatim>\<open>_get_response\<close>\<close>

text \<open>
  What \<^verbatim>\<open>json.loads\<close> returns, and what \<^verbatim>\<open>_get_response\<close> returns: a JSON value
  (\<open>JFloat m e\<close> is the number \<open>m * 2 ^ e\<close>; an object keeps its members in order).
\<close>

datatype json =
    JNull
  | JBool bool
  | JInt int
  | JFloat int int
  | JStr string
  | JArr "json list"
  | JObj "(string \<times> json) list"

text \<open>
  An exception raised inside the \<^verbatim>\<open>try\<close> block: whether its class derives from
  \<^verbatim>\<open>Exception\<close> (\<^verbatim>\<open>KeyboardInterrupt\<close> and \<^verbatim>\<open>SystemExit\<close> do not), and
  \<^verbatim>\<open>str(e)\<close>.
\<close>

datatype py_exception = PyException (is_Exception: bool) (exc_str: string)

text \<open>
  \<^verbatim>\<open>v['response']\<close>: the member of a dictionary, a \<^verbatim>\<open>KeyError\<close> when the
  dictionary has no such key, a \<^verbatim>\<open>TypeError\<close> on every other JSON value (the messages
  are those of CPython 3.11).
\<close>

definition key_error :: "string \<Rightarrow> py_exception" where
  "key_error k = PyException True ([CHR 0x27] @ k @ [CHR 0x27])"

fun getitem :: "json \<Rightarrow> string \<Rightarrow> py_exception + json" where
  "getitem (JObj d) k = (case map_of d k of Some v \<Rightarrow> Inr v | None \<Rightarrow> Inl (key_error k))"
| "getitem (JArr xs) k = Inl (PyException True ''list indices must be integers or slices, not str'')"
| "getitem (JStr s) k = Inl (PyException True (''string indices must be integers, not '' @ [CHR 0x27] @ ''str'' @ [CHR 0x27]))"
| "getitem JNull k = Inl (PyException True ([CHR 0x27] @ ''NoneType'' @ [CHR 0x27] @ '' object is not subscriptable''))"
| "getitem (JBool b) k = Inl (PyException True ([CHR 0x27] @ ''bool'' @ [CHR 0x27] @ '' object is not subscriptable''))"
| "getitem (JInt i) k = Inl (PyException True ([CHR 0x27] @ ''int'' @ [CHR 0x27] @ '' object is not subscriptable''))"
| "getitem (JFloat m e) k = Inl (PyException True ([CHR 0x27] @ ''float'' @ [CHR 0x27] @ '' object is not subscriptable''))"

text \<open>
  The network and the JSON parser are the environment of the worker:
  \<open>urlopen_read url\<close> is the outcome of \<^verbatim>\<open>urlopen(url).read()\<close>, the body or the
  exception raised, and \<open>loads body\<close> the outcome of \<^verbatim>\<open>json.loads(body)\<close>.
  \<open>try_block\<close> is the body of the \<^verbatim>\<open>try\<close> statement; \<open>Inl\<close> is an exception on
  its way out.
\<close>

definition try_block ::
  "(string \<Rightarrow> py_exception + byte list) \<Rightarrow> (byte list \<Rightarrow> py_exception + json) \<Rightarrow> string
     \<Rightarrow> py_exception + json" where
  "try_block urlopen_read loads signed_url =
     (case urlopen_read signed_url of
        Inl e \<Rightarrow> Inl e
      | Inr body \<Rightarrow> (case loads body of Inl e \<Rightarrow> Inl e | Inr v \<Rightarrow> getitem v ''response''))"

definition error_result :: "py_exception \<Rightarrow> json" where
  "error_result e = JObj [(''success'', JStr ''false''), (''error'', JStr (exc_str e))]"

definition get_response ::
  "(string \<Rightarrow> py_exception + byte list) \<Rightarrow> (byte list \<Rightarrow> py_exception + json) \<Rightarrow> string
     \<Rightarrow> py_exception + json" where
  "get_response urlopen_read loads signed_url =
     (case try_block urlopen_read loads signed_url of
        Inr response \<Rightarrow> Inr response
      | Inl e \<Rightarrow> if is_Exception e then Inr (error_result e) else Inl e)"

section \<open>Invariants of a client\<close>

text \<open>
  \<open>values_ok\<close>: \<^verbatim>\<open>self._values\<close> refers to a live dictionary that holds the two base
  parameters. \<open>cache_ok\<close>: the cache holds at most \<open>lru_maxsize\<close> entries, one per URL,
  each the result of signing its URL with the client's private key.
\<close>

definition values_ok :: "client \<Rightarrow> bool" where
  "values_ok s =
     (values_ref s < length (heap s) \<and>
      heap s ! values_ref s = [(''format'', PStr ''json''), (''game_id'', game_id s)])"

definition cache_ok :: "client \<Rightarrow> bool" where
  "cache_ok s =
     (length (lru s) \<le> lru_maxsize \<and> distinct (map fst (lru s)) \<and>
      list_all (\<lambda>(u, r). sign_url (private_key s) u = Inr r) (lru s))"

section \<open>The specification's wording\<close>

text \<open>
  The specification describes the value a successful call delivers as a tagged object with
  a success flag and a payload member.
\<close>

definition APIResult_success :: "json \<Rightarrow> json" where
  "APIResult_success payload = JObj [(''success'', JBool True), (''payload'', payload)]"

text \<open>
  The separator the specification asks for: \<^verbatim>\<open>&\<close> after a URL that has a query
  string, \<^verbatim>\<open>?\<close> after one that has none.
\<close>

definition spec_separator :: "string \<Rightarrow> string" where
  "spec_separator url = (if CHR ''?'' \<in> set url then ''&'' else ''?'')"

section \<open>Sample environments and inputs\<close>

text \<open>
  A network that answers every URL with one body, a network that fails with one error, a
  parser that yields one value, and a parser that rejects every body.
\<close>

definition serve :: "byte list \<Rightarrow> string \<Rightarrow> py_exception + byte list" where
  "serve body url = Inr body"

definition refuse :: "string \<Rightarrow> string \<Rightarrow> py_exception + byte list" where
  "refuse msg url = Inl (PyException True msg)"

definition parsed :: "json \<Rightarrow> byte list \<Rightarrow> py_exception + json" where
  "parsed v body = Inr v"

definition malformed :: "string \<Rightarrow> byte list \<Rightarrow> py_exception + json" where
  "malformed msg body = Inl (PyException True msg)"

definition sample_client :: client where
  "sample_client = GameJoltAPI (PStr ''123'') ''secret'' PNone PNone"

definition signed_in_client :: client where
  "signed_in_client = GameJoltAPI (PStr ''123'') ''secret'' (PStr ''ann'') (PStr ''t0k'')"

text \<open>\<open>numbered_urls n\<close>: \<open>n\<close> unsigned URLs, no two alike.\<close>

primrec numbered_urls :: "nat \<Rightarrow> string list" where
  "numbered_urls 0 = []"
| "numbered_urls (Suc n) = numbered_urls n @ [''http://h/?q='' @ replicate n (CHR ''x'')]"

text \<open>A client whose private key holds a non-ASCII character.\<close>

definition accented_client :: client where
  "accented_client = GameJoltAPI (PStr ''123'') (''secr'' @ [CHR 0xE9] @ ''t'') PNone PNone"

section \<open>The frame of a call\<close>

text \<open>
  \<open>unchanged s s'\<close>: the fields \<^verbatim>\<open>_game_id\<close>, \<^verbatim>\<open>_private_key\<close>, \<^verbatim>\<open>_base_url\<close>,
  \<^verbatim>\<open>username\<close> and \<^verbatim>\<open>token\<close> are the same in \<open>s'\<close> as in \<open>s\<close>, \<^verbatim>\<open>_values\<close>
  refers to the same dictionary object, and that object has the same contents.
\<close>

definition unchanged :: "client \<Rightarrow> client \<Rightarrow> bool" where
  "unchanged s s' =
     (game_id s' = game_id s \<and> private_key s' = private_key s \<and> base_url s' = base_url s \<and>
      username s' = username s \<and> token s' = token s \<and> values_ref s' = values_ref s \<and>
      heap s' ! values_ref s' = heap s ! values_ref s)"

text \<open>
  \<open>keeps s s'\<close>: the step from \<open>s\<close> to \<open>s'\<close> has not touched the cache or the private
  key and has freed no dictionary.
\<close>

definition keeps :: "client \<Rightarrow> client \<Rightarrow> bool" where
  "keeps s s' =
     (lru s' = lru s \<and> private_key s' = private_key s \<and> length (heap s) \<le> length (heap s'))"

section \<open>The worker returns data\<close>

lemma getitem_is_Exception: "getitem v k = Inl e \<Longrightarrow> is_Exception e"
  by (cases v) (auto simp: key_error_def split: option.splits)

lemma try_block_is_Exception:
  assumes "\<And>u e. urlopen_read u = Inl e \<Longrightarrow> is_Exception e"
      and "\<And>b e. loads b = Inl e \<Longrightarrow> is_Exception e"
      and "try_block urlopen_read loads signed_url = Inl e"
  shows "is_Exception e"
  using assms
  by (auto simp: try_block_def split: sum.splits dest: getitem_is_Exception)

lemma get_response_missing_field:
  assumes "urlopen_read signed_url = Inr body" and "loads body = Inr (JObj d)"
      and "map_of d ''response'' = None"
  shows "get_response urlopen_read loads signed_url = Inr (error_result (key_error ''response''))"
  using assms by (simp add: get_response_def try_block_def key_error_def)

text \<open>
  C2. Whatever the signed URL, \<open>get_response\<close> returns a value and raises nothing,
  provided the exceptions the network and the parser raise derive from \<^verbatim>\<open>Exception\<close>
  (as network errors and parse errors do). Each failure gives the dictionary with
  \<^verbatim>\<open>success\<close> set to the string \<^verbatim>\<open>false\<close> and \<^verbatim>\<open>error\<close> set to the message of
  the exception: a network error, a body that does not parse, an object without a
  \<^verbatim>\<open>response\<close> member (the message is that of the \<^verbatim>\<open>KeyError\<close>), and a body that
  parses to something other than an object.
\<close>

theorem get_response_never_raises:
  assumes "\<And>u e. urlopen_read u = Inl e \<Longrightarrow> is_Exception e"
      and "\<And>b e. loads b = Inl e \<Longrightarrow> is_Exception e"
  shows "(\<exists>r. get_response urlopen_read loads signed_url = Inr r) \<and>
         (\<forall>e. urlopen_read signed_url = Inl e \<longrightarrow>
              get_response urlopen_read loads signed_url =
                Inr (JObj [(''success'', JStr ''false''), (''error'', JStr (exc_str e))])) \<and>
         (\<forall>body e. urlopen_read signed_url = Inr body \<and> loads body = Inl e \<longrightarrow>
              get_response urlopen_read loads signed_url =
                Inr (JObj [(''success'', JStr ''false''), (''error'', JStr (exc_str e))])) \<and>
         (\<forall>body d. urlopen_read signed_url = Inr body \<and> loads body = Inr (JObj d) \<and>
                   map_of d ''response'' = None \<longrightarrow>
              get_response urlopen_read loads signed_url =
                Inr (JObj [(''success'', JStr ''false''),
                           (''error'', JStr ([CHR 0x27] @ ''response'' @ [CHR 0x27]))])) \<and>
         (\<forall>body v. urlopen_read signed_url = Inr body \<and> loads body = Inr v \<and>
                   (\<forall>d. v \<noteq> JObj d) \<longrightarrow>
              (\<exists>msg. get_response urlopen_read loads signed_url =
                 Inr (JObj [(''success'', JStr ''false''), (''error'', JStr msg)]))) \<and>
         (\<forall>e. try_block urlopen_read loads signed_url = Inl e \<longrightarrow>
              get_response urlopen_read loads signed_url =
                Inr (JObj [(''success'', JStr ''false''), (''error'', JStr (exc_str e))]))"
proof (intro conjI allI impI)
  show "\<exists>r. get_response urlopen_read loads signed_url = Inr r"
  proof (cases "try_block urlopen_read loads signed_url")
    case (Inl e)
    then have "is_Exception e"
      using assms try_block_is_Exception by blast
    with Inl show ?thesis
      by (simp add: get_response_def)
  next
    case (Inr r)
    then show ?thesis
      by (simp add: get_response_def)
  qed
next
  fix e
  assume h: "urlopen_read signed_url = Inl e"
  then have "is_Exception e"
    by (rule assms(1))
  with h show "get_response urlopen_read loads signed_url =
                 Inr (JObj [(''success'', JStr ''false''), (''error'', JStr (exc_str e))])"
    by (simp add: get_response_def try_block_def error_result_def)
next
  fix body e
  assume h: "urlopen_read signed_url = Inr body \<and> loads body = Inl e"
  then have "is_Exception e"
    using assms(2) by blast
  with h show "get_response urlopen_read loads signed_url =
                 Inr (JObj [(''success'', JStr ''false''), (''error'', JStr (exc_str e))])"
    by (simp add: get_response_def try_block_def error_result_def)
next
  fix body d
  assume "urlopen_read signed_url = Inr body \<and> loads body = Inr (JObj d) \<and>
          map_of d ''response'' = None"
  then show "get_response urlopen_read loads signed_url =
               Inr (JObj [(''success'', JStr ''false''),
                          (''error'', JStr ([CHR 0x27] @ ''response'' @ [CHR 0x27]))])"
    by (simp add: get_response_missing_field error_result_def key_error_def)
next
  fix body v
  assume h: "urlopen_read signed_url = Inr body \<and> loads body = Inr v \<and> (\<forall>d. v \<noteq> JObj d)"
  then show "\<exists>msg. get_response urlopen_read loads signed_url =
               Inr (JObj [(''success'', JStr ''false''), (''error'', JStr msg)])"
    by (cases v) (simp_all add: get_response_def try_block_def error_result_def)
next
  fix e
  assume h: "try_block urlopen_read loads signed_url = Inl e"
  then have "is_Exception e"
    using assms try_block_is_Exception by blast
  with h show "get_response urlopen_read loads signed_url =
                 Inr (JObj [(''success'', JStr ''false''), (''error'', JStr (exc_str e))])"
    by (simp add: get_response_def error_result_def)
qed

theorem get_response_never_raises_witness:
  "get_response (refuse ''timed out'') (parsed JNull) ''http://h/?a=1&signature=00'' =
     Inr (JObj [(''success'', JStr ''false''), (''error'', JStr ''timed out'')]) \<and>
   get_response (serve []) (malformed ''Expecting value'') ''http://h/?a=1&signature=00'' =
     Inr (JObj [(''success'', JStr ''false''), (''error'', JStr ''Expecting value'')]) \<and>
   get_response (serve []) (parsed (JObj [(''a'', JInt 1)])) ''http://h/?a=1&signature=00'' =
     Inr (JObj [(''success'', JStr ''false''),
                (''error'', JStr ([CHR 0x27] @ ''response'' @ [CHR 0x27]))]) \<and>
   get_response (serve []) (parsed (JArr [])) ''http://h/?a=1&signature=00'' =
     Inr (JObj [(''success'', JStr ''false''),
                (''error'', JStr ''list indices must be integers or slices, not str'')])"
proof -
  have r: "\<And>u e. refuse ''timed out'' u = Inl e \<Longrightarrow> is_Exception e"
    by (auto simp: refuse_def)
  have s: "\<And>u e. serve [] u = Inl e \<Longrightarrow> is_Exception e"
    by (simp add: serve_def)
  have p: "\<And>v b e. parsed v b = Inl e \<Longrightarrow> is_Exception e"
    by (simp add: parsed_def)
  have m: "\<And>b e. malformed ''Expecting value'' b = Inl e \<Longrightarrow> is_Exception e"
    by (auto simp: malformed_def)
  have "get_response (refuse ''timed out'') (parsed JNull) ''http://h/?a=1&signature=00'' =
          Inr (JObj [(''success'', JStr ''false''), (''error'', JStr ''timed out'')])"
    using get_response_never_raises
            [where urlopen_read = "refuse ''timed out''" and loads = "parsed JNull"
               and signed_url = "''http://h/?a=1&signature=00''", OF r p]
    by (simp add: refuse_def)
  moreover
  have "get_response (serve []) (malformed ''Expecting value'') ''http://h/?a=1&signature=00'' =
          Inr (JObj [(''success'', JStr ''false''), (''error'', JStr ''Expecting value'')])"
    using get_response_never_raises
            [where urlopen_read = "serve []" and loads = "malformed ''Expecting value''"
               and signed_url = "''http://h/?a=1&signature=00''", OF s m]
    by (simp add: serve_def malformed_def)
  moreover
  have "get_response (serve []) (parsed (JObj [(''a'', JInt 1)])) ''http://h/?a=1&signature=00'' =
          Inr (JObj [(''success'', JStr ''false''),
                     (''error'', JStr ([CHR 0x27] @ ''response'' @ [CHR 0x27]))])"
    using get_response_never_raises
            [where urlopen_read = "serve []" and loads = "parsed (JObj [(''a'', JInt 1)])"
               and signed_url = "''http://h/?a=1&signature=00''", OF s p]
    by (simp add: serve_def parsed_def)
  moreover
  have "get_response (serve []) (parsed (JArr [])) ''http://h/?a=1&signature=00'' =
          Inr (JObj [(''success'', JStr ''false''),
                     (''error'', JStr ''list indices must be integers or slices, not str'')])"
    using get_response_never_raises
            [where urlopen_read = "serve []" and loads = "parsed (JArr [])"
               and signed_url = "''http://h/?a=1&signature=00''", OF s p,
             THEN conjunct2, THEN conjunct2, THEN conjunct2, THEN conjunct2, THEN conjunct2]
    by (simp add: try_block_def serve_def parsed_def)
  ultimately show ?thesis by blast
qed

text \<open>
  C9, as the specification words it, fails: the body
  \<^verbatim>\<open>{"response": {"success": "true"}}\<close> makes the worker return the inner object
  itself, not an object that tags it with a success flag and carries it as payload.
\<close>

theorem get_response_tagged_counterexample:
  "get_response (serve []) (parsed (JObj [(''response'', JObj [(''success'', JStr ''true'')])]))
       ''http://h/?a=1&signature=00''
     \<noteq> Inr (APIResult_success (JObj [(''success'', JStr ''true'')]))"
  by (simp add: get_response_def try_block_def serve_def parsed_def APIResult_success_def)

text \<open>
  C9, amended. When the call succeeds and the body parses to an object with a
  \<^verbatim>\<open>response\<close> member, the worker returns that member as it is.
\<close>

theorem get_response_returns_response_member:
  assumes "urlopen_read signed_url = Inr body" and "loads body = Inr (JObj d)"
      and "map_of d ''response'' = Some r"
  shows "get_response urlopen_read loads signed_url = Inr r"
  using assms by (simp add: get_response_def try_block_def)

theorem get_response_returns_response_member_witness:
  "get_response (serve []) (parsed (JObj [(''response'', JObj [(''success'', JStr ''true'')])]))
       ''http://h/?a=1&signature=00''
     = Inr (JObj [(''success'', JStr ''true'')])"
proof -
  have u: "serve [] ''http://h/?a=1&signature=00'' = Inr []"
    by (simp add: serve_def)
  have l: "parsed (JObj [(''response'', JObj [(''success'', JStr ''true'')])]) [] =
             Inr (JObj [(''response'', JObj [(''success'', JStr ''true'')])])"
    by (simp add: parsed_def)
  have m: "map_of [(''response'', JObj [(''success'', JStr ''true'')])] ''response'' =
             Some (JObj [(''success'', JStr ''true'')])"
    by simp
  from get_response_returns_response_member
         [where urlopen_read = "serve []" and signed_url = "''http://h/?a=1&signature=00''"
            and loads = "parsed (JObj [(''response'', JObj [(''success'', JStr ''true'')])])",
          OF u l m]
  show ?thesis .
qed

section \<open>Facts about the library functions\<close>

lemma quote_plus_safe: "list_all always_safe s \<Longrightarrow> quote_plus s = s"
  by (induction s) (simp_all add: quote_plus_def quote_char_def)

lemma hex_digit_lower: "n < 16 \<Longrightarrow> hex_digit n \<in> set lower_hex"
  unfolding hex_digit_def by (rule nth_mem) (simp add: lower_hex_def)

lemma byte_nibbles: "unat (b :: byte) div 16 < 16 \<and> unat b mod 16 < 16"
proof -
  have "unat b < 2 ^ 8"
    using unsigned_less [of b, where 'a = nat] by simp
  then show ?thesis by simp
qed

lemma set_hexdigest: "set (hexdigest bs) \<subseteq> set lower_hex"
  by (auto simp: hexdigest_def hex_digit_lower byte_nibbles)

lemma length_hexdigest: "length (hexdigest bs) = 2 * length bs"
  by (induction bs) (simp_all add: hexdigest_def)

lemma length_sha1: "length (sha1 m) = 20"
  by (simp add: sha1_def Let_def word_bytes_def split: prod.splits)

lemma lower_hex_safe: "c \<in> set lower_hex \<Longrightarrow> always_safe c"
  by (auto simp: lower_hex_def always_safe_def)

lemma hexdigest_safe: "list_all always_safe (hexdigest bs)"
  using set_hexdigest [of bs] by (auto simp: list_all_iff lower_hex_safe)

lemma urlencode_signature:
  "urlencode [(''signature'', PStr (hexdigest bs))] = ''signature='' @ hexdigest bs"
proof -
  have "quote_plus ''signature'' = ''signature''"
    by (rule quote_plus_safe) (simp add: always_safe_def)
  then show ?thesis
    by (simp add: urlencode_def quote_plus_safe [OF hexdigest_safe])
qed

section \<open>The signer\<close>

lemma sign_url_eq:
  "sign_url key url =
     (if list_all is_ascii (url @ key)
      then Inr (url @ ''&signature='' @ hexdigest (sha1 (map of_char (url @ key))))
      else Inl UnicodeEncodeError)"
  by (simp add: sign_url_def ascii_bytes_def Let_def urlencode_signature)

lemma cached_is_signed:
  assumes "cache_ok s" and "map_of (lru s) url = Some r"
  shows "sign_url (private_key s) url = Inr r"
proof -
  from assms(2) have "(url, r) \<in> set (lru s)"
    by (rule map_of_SomeD)
  with assms(1) show ?thesis
    by (auto simp: cache_ok_def list_all_iff)
qed

lemma fst_encode_signed_url:
  assumes "cache_ok s"
  shows "fst (encode_signed_url s url) = sign_url (private_key s) url"
proof (cases "map_of (lru s) url")
  case None
  then show ?thesis
    by (simp add: encode_signed_url_def split: sum.splits)
next
  case (Some r)
  with assms have "sign_url (private_key s) url = Inr r"
    by (rule cached_is_signed)
  with Some show ?thesis
    by (simp add: encode_signed_url_def)
qed

lemma cache_ok_init: "cache_ok (GameJoltAPI gid key user tok)"
  by (simp add: cache_ok_def GameJoltAPI_def)

text \<open>
  C1. For a URL that is ASCII together with the private key, the signer returns the URL
  followed by \<^verbatim>\<open>&signature=\<close> and the hex digest of the SHA-1 of the bytes of URL and
  key; the digest has 40 characters, all of them lower-case hexadecimal digits; and the
  result is the same in every state of the cache of a client with this key.
\<close>

theorem encode_signed_url_sha1_deterministic:
  assumes "cache_ok s" and "list_all is_ascii (url @ private_key s)"
  shows "fst (encode_signed_url s url) =
           Inr (url @ ''&signature='' @ hexdigest (sha1 (map of_char (url @ private_key s)))) \<and>
         length (hexdigest (sha1 (map of_char (url @ private_key s)))) = 40 \<and>
         set (hexdigest (sha1 (map of_char (url @ private_key s)))) \<subseteq> set ''0123456789abcdef'' \<and>
         (\<forall>s'. cache_ok s' \<and> private_key s' = private_key s \<longrightarrow>
               fst (encode_signed_url s' url) = fst (encode_signed_url s url))"
proof -
  have "fst (encode_signed_url s url) =
          Inr (url @ ''&signature='' @ hexdigest (sha1 (map of_char (url @ private_key s))))"
    using assms by (simp add: fst_encode_signed_url sign_url_eq)
  moreover have "length (hexdigest (sha1 (map of_char (url @ private_key s)))) = 40"
    by (simp add: length_hexdigest length_sha1)
  moreover have "set (hexdigest (sha1 (map of_char (url @ private_key s)))) \<subseteq> set ''0123456789abcdef''"
    using set_hexdigest [of "sha1 (map of_char (url @ private_key s))"]
    by (simp only: lower_hex_def)
  moreover have "\<forall>s'. cache_ok s' \<and> private_key s' = private_key s \<longrightarrow>
               fst (encode_signed_url s' url) = fst (encode_signed_url s url)"
    using assms(1) by (simp add: fst_encode_signed_url)
  ultimately show ?thesis by blast
qed

theorem encode_signed_url_sha1_deterministic_witness:
  "fst (encode_signed_url sample_client ''http://h/?a=1'') =
     Inr (''http://h/?a=1&signature='' @ hexdigest (sha1 (map of_char ''http://h/?a=1secret'')))"
proof -
  have c: "cache_ok sample_client"
    by (simp add: sample_client_def cache_ok_init)
  have a: "list_all is_ascii (''http://h/?a=1'' @ private_key sample_client)"
    by (simp add: sample_client_def GameJoltAPI_def is_ascii_def)
  from encode_signed_url_sha1_deterministic [OF c a]
  show ?thesis by (simp add: sample_client_def GameJoltAPI_def)
qed

text \<open>
  C3, as the specification words it, fails: a URL without a query string is signed with
  \<^verbatim>\<open>&\<close> too, where the specification asks for \<^verbatim>\<open>?\<close>.
\<close>

theorem encode_signed_url_separator_counterexample:
  "fst (encode_signed_url sample_client ''http://h/p'') \<noteq>
     Inr (''http://h/p'' @ spec_separator ''http://h/p'' @ ''signature='' @
          hexdigest (sha1 (map of_char (''http://h/p'' @ private_key sample_client))))"
proof -
  have "cache_ok sample_client"
    by (simp add: sample_client_def cache_ok_init)
  then have "fst (encode_signed_url sample_client ''http://h/p'') =
               sign_url (private_key sample_client) ''http://h/p''"
    by (rule fst_encode_signed_url)
  then show ?thesis
    by (simp add: sign_url_eq sample_client_def GameJoltAPI_def is_ascii_def spec_separator_def)
qed

text \<open>
  C3, amended. The signer appends the signature parameter with \<^verbatim>\<open>&\<close>, whatever the
  URL. Every URL that \<open>submit\<close> builds contains \<^verbatim>\<open>?\<close>, and for a URL that contains
  \<^verbatim>\<open>?\<close> the separator \<^verbatim>\<open>&\<close> is the one the specification asks for.
\<close>

theorem encode_signed_url_separator:
  assumes "cache_ok s" and "list_all is_ascii (url @ private_key s)"
  shows "fst (encode_signed_url s url) =
           Inr (url @ ''&'' @ ''signature='' @ hexdigest (sha1 (map of_char (url @ private_key s)))) \<and>
         (CHR ''?'' \<in> set url \<longrightarrow> spec_separator url = ''&'') \<and>
         CHR ''?'' \<in> set (unsigned_url endpoint d)"
  using assms
  by (simp add: fst_encode_signed_url sign_url_eq spec_separator_def unsigned_url_def)

theorem encode_signed_url_separator_witness:
  "fst (encode_signed_url sample_client ''http://h/p?a=1'') =
     Inr (''http://h/p?a=1&signature='' @ hexdigest (sha1 (map of_char ''http://h/p?a=1secret''))) \<and>
   spec_separator ''http://h/p?a=1'' = ''&''"
proof -
  have c: "cache_ok sample_client"
    by (simp add: sample_client_def cache_ok_init)
  have a: "list_all is_ascii (''http://h/p?a=1'' @ private_key sample_client)"
    by (simp add: sample_client_def GameJoltAPI_def is_ascii_def)
  from encode_signed_url_separator [OF c a]
  show ?thesis by (simp add: sample_client_def GameJoltAPI_def)
qed

section \<open>The cache invariant is kept\<close>

lemma private_key_encode_signed_url [simp]:
  "private_key (snd (encode_signed_url s url)) = private_key s"
  by (simp add: encode_signed_url_def split: option.splits sum.splits)

lemma executor_encode_signed_url [simp]:
  "executor (snd (encode_signed_url s url)) = executor s"
  by (simp add: encode_signed_url_def split: option.splits sum.splits)

lemma hit_shrinks:
  assumes "map_of xs k = Some v"
  shows "length (filter (\<lambda>p. fst p \<noteq> k) xs) < length xs"
proof -
  from assms have "(k, v) \<in> set xs"
    by (rule map_of_SomeD)
  then show ?thesis
    using length_filter_less [of "(k, v)" xs "\<lambda>p. fst p \<noteq> k"] by simp
qed

lemma lru_after_miss:
  assumes "map_of (lru s) url = None" and "sign_url (private_key s) url = Inr r"
  shows "lru (snd (encode_signed_url s url)) =
           (url, r) # (if length (lru s) \<ge> lru_maxsize then butlast (lru s) else lru s)"
  using assms by (simp add: encode_signed_url_def)

lemma lru_after_hit:
  assumes "map_of (lru s) url = Some r"
  shows "lru (snd (encode_signed_url s url)) = (url, r) # filter (\<lambda>p. fst p \<noteq> url) (lru s)"
  using assms by (simp add: encode_signed_url_def)

lemma lru_after_error:
  assumes "map_of (lru s) url = None" and "sign_url (private_key s) url = Inl e"
  shows "snd (encode_signed_url s url) = s"
  using assms by (simp add: encode_signed_url_def)

lemma cache_ok_encode_signed_url:
  assumes "cache_ok s"
  shows "cache_ok (snd (encode_signed_url s url))"
proof (cases "map_of (lru s) url")
  case (Some r)
  have sg: "sign_url (private_key s) url = Inr r"
    using assms Some by (rule cached_is_signed)
  have "length (filter (\<lambda>p. fst p \<noteq> url) (lru s)) < length (lru s)"
    using Some by (rule hit_shrinks)
  with assms sg show ?thesis
    by (auto simp: cache_ok_def lru_after_hit [OF Some] list_all_iff distinct_map_filter)
next
  case None
  then have notin: "url \<notin> fst ` set (lru s)"
    by (simp add: map_of_eq_None_iff)
  show ?thesis
  proof (cases "sign_url (private_key s) url")
    case (Inl e)
    with None assms show ?thesis
      by (simp add: lru_after_error)
  next
    case (Inr r)
    have "length (butlast (lru s)) < lru_maxsize"
      using assms by (auto simp: cache_ok_def lru_maxsize_def)
    moreover have "distinct (map fst (butlast (lru s)))"
      using assms by (simp add: cache_ok_def map_butlast distinct_butlast)
    moreover have "url \<notin> fst ` set (butlast (lru s))"
      using notin by (auto dest: in_set_butlastD)
    moreover have "list_all (\<lambda>(u, r). sign_url (private_key s) u = Inr r) (butlast (lru s))"
      using assms by (auto simp: cache_ok_def list_all_iff dest: in_set_butlastD)
    ultimately show ?thesis
      using assms notin Inr
      by (auto simp: cache_ok_def lru_after_miss [OF None Inr])
  qed
qed

lemma cache_ok_sign_all: "cache_ok s \<Longrightarrow> cache_ok (sign_all s urls)"
  by (induction urls arbitrary: s) (simp_all add: cache_ok_encode_signed_url)

lemma private_key_sign_all [simp]: "private_key (sign_all s urls) = private_key s"
  by (induction urls arbitrary: s) simp_all

section \<open>Encoding errors at submission\<close>

lemma encode_signed_url_non_ascii:
  assumes "cache_ok s" and "\<not> list_all is_ascii (url @ private_key s)"
  shows "encode_signed_url s url = (Inl UnicodeEncodeError, s)"
proof -
  have sg: "sign_url (private_key s) url = Inl UnicodeEncodeError"
    using assms(2) by (simp add: sign_url_eq)
  have "map_of (lru s) url = None"
  proof (cases "map_of (lru s) url")
    case (Some r)
    with assms(1) have "sign_url (private_key s) url = Inr r"
      by (rule cached_is_signed)
    with sg show ?thesis by simp
  qed simp
  with sg show ?thesis
    by (simp add: encode_signed_url_def)
qed

lemma submit_ascii:
  assumes "cache_ok s"
      and "list_all is_ascii (unsigned_url endpoint (heap s ! vals) @ private_key s)"
  shows "submit s endpoint vals =
           (Inr (Future (unsigned_url endpoint (heap s ! vals) @ ''&signature='' @
                   hexdigest (sha1 (map of_char (unsigned_url endpoint (heap s ! vals) @ private_key s))))),
            (snd (encode_signed_url s (unsigned_url endpoint (heap s ! vals))))
              \<lparr>executor := executor s @
                 [unsigned_url endpoint (heap s ! vals) @ ''&signature='' @
                   hexdigest (sha1 (map of_char (unsigned_url endpoint (heap s ! vals) @ private_key s)))]\<rparr>)"
proof -
  obtain x s' where e: "encode_signed_url s (unsigned_url endpoint (heap s ! vals)) = (x, s')"
    by force
  have "fst (encode_signed_url s (unsigned_url endpoint (heap s ! vals))) =
          Inr (unsigned_url endpoint (heap s ! vals) @ ''&signature='' @
               hexdigest (sha1 (map of_char (unsigned_url endpoint (heap s ! vals) @ private_key s))))"
    using assms by (simp add: fst_encode_signed_url sign_url_eq)
  with e have x: "x = Inr (unsigned_url endpoint (heap s ! vals) @ ''&signature='' @
               hexdigest (sha1 (map of_char (unsigned_url endpoint (heap s ! vals) @ private_key s))))"
    by simp
  have "executor s' = executor s"
    using executor_encode_signed_url [of s "unsigned_url endpoint (heap s ! vals)"] e by simp
  with e x show ?thesis
    by (simp add: submit_def Let_def)
qed

text \<open>
  C8. When the unsigned URL followed by the private key holds a non-ASCII character,
  \<open>submit\<close> raises \<^verbatim>\<open>UnicodeEncodeError\<close> and leaves the client as it was, so no task
  has been added to the executor's queue. When they are ASCII, \<open>submit\<close> raises nothing:
  it returns a future and has added the signed URL to the queue.
\<close>

theorem submit_encoding_error:
  assumes "cache_ok s"
  shows "(\<not> list_all is_ascii (unsigned_url endpoint (heap s ! vals) @ private_key s) \<longrightarrow>
            submit s endpoint vals = (Inl UnicodeEncodeError, s)) \<and>
         (list_all is_ascii (unsigned_url endpoint (heap s ! vals) @ private_key s) \<longrightarrow>
            (\<exists>signed_url. fst (submit s endpoint vals) = Inr (Future signed_url) \<and>
               executor (snd (submit s endpoint vals)) = executor s @ [signed_url]))"
proof (cases "list_all is_ascii (unsigned_url endpoint (heap s ! vals) @ private_key s)")
  case True
  with assms show ?thesis
    by (simp add: submit_ascii)
next
  case False
  with assms have "encode_signed_url s (unsigned_url endpoint (heap s ! vals)) =
                     (Inl UnicodeEncodeError, s)"
    by (rule encode_signed_url_non_ascii)
  with False show ?thesis
    by (simp add: submit_def Let_def)
qed

theorem submit_encoding_error_witness:
  "submit accented_client ''http://h/'' 0 = (Inl UnicodeEncodeError, accented_client) \<and>
   fst (submit sample_client ''http://h/'' 0) \<noteq> Inl UnicodeEncodeError \<and>
   length (executor (snd (submit sample_client ''http://h/'' 0))) = 1"
proof -
  have c1: "cache_ok accented_client"
    by (simp add: accented_client_def cache_ok_init)
  have n: "\<not> list_all is_ascii
             (unsigned_url ''http://h/'' (heap accented_client ! 0) @ private_key accented_client)"
    by (simp add: accented_client_def GameJoltAPI_def is_ascii_def)
  have c2: "cache_ok sample_client"
    by (simp add: sample_client_def cache_ok_init)
  have u: "unsigned_url ''http://h/'' (heap sample_client ! 0) = ''http://h/?format=json&game_id=123''"
    by (simp add: sample_client_def GameJoltAPI_def unsigned_url_def urlencode_def quote_plus_def
        quote_char_def always_safe_def)
  have a: "list_all is_ascii
             (unsigned_url ''http://h/'' (heap sample_client ! 0) @ private_key sample_client)"
    by (simp add: u) (simp add: sample_client_def GameJoltAPI_def is_ascii_def)
  have e: "executor sample_client = []"
    by (simp add: sample_client_def GameJoltAPI_def)
  from submit_encoding_error [OF c1, of "''http://h/''" 0] n
  have "submit accented_client ''http://h/'' 0 = (Inl UnicodeEncodeError, accented_client)"
    by blast
  moreover from submit_encoding_error [OF c2, of "''http://h/''" 0] a e
  have "fst (submit sample_client ''http://h/'' 0) \<noteq> Inl UnicodeEncodeError \<and>
        length (executor (snd (submit sample_client ''http://h/'' 0))) = 1"
    by auto
  ultimately show ?thesis by blast
qed

section \<open>Argument checking\<close>

text \<open>
  C6, as the specification words it, fails: in an interpreter started with \<^verbatim>\<open>-O\<close>
  the \<^verbatim>\<open>assert\<close> is not executed, and the call with the operation \<^verbatim>\<open>invalid\<close>
  raises nothing: it returns a future and its signed URL is in the executor's queue.
\<close>

theorem data_store_update_optimized_counterexample:
  "fst (data_store_update False sample_client (PStr ''k'') (PStr ''invalid'') (PStr ''1'') (PBool False)) =
     Inr (Future
       (''http://api.gamejolt.com/api/game/v1/data-store/update/?format=json&game_id=123&key=k&operation=invalid&value=1&signature='' @
        hexdigest (sha1 (map of_char
          ''http://api.gamejolt.com/api/game/v1/data-store/update/?format=json&game_id=123&key=k&operation=invalid&value=1secret'')))) \<and>
   executor (snd (data_store_update False sample_client (PStr ''k'') (PStr ''invalid'') (PStr ''1'') (PBool False))) =
     [''http://api.gamejolt.com/api/game/v1/data-store/update/?format=json&game_id=123&key=k&operation=invalid&value=1&signature='' @
      hexdigest (sha1 (map of_char
        ''http://api.gamejolt.com/api/game/v1/data-store/update/?format=json&game_id=123&key=k&operation=invalid&value=1secret''))]"
proof -
  let ?r = "data_store_update_values sample_client (PStr ''k'') (PStr ''invalid'') (PStr ''1'')
              (PBool False)"
  have e: "fst (fst ?r) = ''http://api.gamejolt.com/api/game/v1/data-store/update/''"
    and p: "heap (snd ?r) ! snd (fst ?r) =
              [(''format'', PStr ''json''), (''game_id'', PStr ''123''), (''key'', PStr ''k''),
               (''operation'', PStr ''invalid''), (''value'', PStr ''1'')]"
    and k: "private_key (snd ?r) = ''secret''"
    and l: "lru (snd ?r) = []"
    and x: "executor (snd ?r) = []"
    by (simp_all add: data_store_update_values_def sample_client_def GameJoltAPI_def
        dict_copy_def dict_setitem_def urljoin_def Let_def)
  have c: "cache_ok (snd ?r)"
    by (simp add: cache_ok_def l)
  have u: "unsigned_url (fst (fst ?r)) (heap (snd ?r) ! snd (fst ?r)) =
             ''http://api.gamejolt.com/api/game/v1/data-store/update/?format=json&game_id=123&key=k&operation=invalid&value=1''"
    by (simp add: e p unsigned_url_def urlencode_def quote_plus_def quote_char_def always_safe_def)
  have a: "list_all is_ascii
             (unsigned_url (fst (fst ?r)) (heap (snd ?r) ! snd (fst ?r)) @ private_key (snd ?r))"
    by (simp add: u k is_ascii_def)
  have "data_store_update False sample_client (PStr ''k'') (PStr ''invalid'') (PStr ''1'') (PBool False) =
          submit (snd ?r) (fst (fst ?r)) (snd (fst ?r))"
    by (simp add: data_store_update_def split_def)
  with submit_ascii [OF c a] show ?thesis
    by (simp add: u k x)
qed

text \<open>
  C6, amended. When the operation is none of \<^verbatim>\<open>add\<close>, \<^verbatim>\<open>subtract\<close>,
  \<^verbatim>\<open>multiply\<close>, \<^verbatim>\<open>divide\<close>, \<^verbatim>\<open>append\<close>, \<^verbatim>\<open>prepend\<close> and assertions are
  enabled, as they are by default, \<open>data_store_update\<close> raises \<^verbatim>\<open>AssertionError\<close> and
  leaves the client as it was: nothing is signed and no task is added to the executor's
  queue. With assertions disabled the operation is not checked: the call assembles its
  parameters and submits them like any other.
\<close>

theorem data_store_update_invalid_operation:
  assumes "operation \<notin> set valid_operations"
  shows "(debug \<longrightarrow>
            fst (data_store_update debug s key operation val public) = Inl AssertionError \<and>
            snd (data_store_update debug s key operation val public) = s \<and>
            executor (snd (data_store_update debug s key operation val public)) = executor s) \<and>
         (\<not> debug \<longrightarrow>
            data_store_update debug s key operation val public =
              submit (snd (data_store_update_values s key operation val public))
                (fst (fst (data_store_update_values s key operation val public)))
                (snd (fst (data_store_update_values s key operation val public))))"
  using assms by (simp add: data_store_update_def split_def)

theorem data_store_update_invalid_operation_witness:
  "data_store_update True sample_client (PStr ''k'') (PStr ''invalid'') (PInt 1) (PBool False) =
     (Inl AssertionError, sample_client) \<and>
   data_store_update False sample_client (PStr ''k'') (PStr ''invalid'') (PInt 1) (PBool False) =
     submit (snd (data_store_update_values sample_client (PStr ''k'') (PStr ''invalid'') (PInt 1) (PBool False)))
       (fst (fst (data_store_update_values sample_client (PStr ''k'') (PStr ''invalid'') (PInt 1) (PBool False))))
       (snd (fst (data_store_update_values sample_client (PStr ''k'') (PStr ''invalid'') (PInt 1) (PBool False))))"
proof -
  have h: "PStr ''invalid'' \<notin> set valid_operations"
    by (simp add: valid_operations_def)
  from data_store_update_invalid_operation
         [OF h, where debug = True and s = sample_client and key = "PStr ''k''"
            and val = "PInt 1" and public = "PBool False"]
       data_store_update_invalid_operation
         [OF h, where debug = False and s = sample_client and key = "PStr ''k''"
            and val = "PInt 1" and public = "PBool False"]
  show ?thesis by (simp add: prod_eq_iff)
qed

section \<open>The cache is bounded\<close>

lemma take_append_take: "take n (xs @ take n ys) = take n (xs @ ys)"
  by simp

lemma keys_after_miss:
  assumes "cache_ok s" and "url \<notin> fst ` set (lru s)"
      and "list_all is_ascii (url @ private_key s)"
  shows "map fst (lru (snd (encode_signed_url s url))) = take lru_maxsize (url # map fst (lru s))"
proof -
  have n: "map_of (lru s) url = None"
    using assms(2) by (simp add: map_of_eq_None_iff)
  obtain r where r: "sign_url (private_key s) url = Inr r"
    using assms(3) by (simp add: sign_url_eq)
  have "length (lru s) \<le> 128"
    using assms(1) by (simp add: cache_ok_def lru_maxsize_def)
  then show ?thesis
    by (simp add: lru_after_miss [OF n r] lru_maxsize_def map_butlast butlast_conv_take take_map)
qed

lemma keys_sign_all:
  assumes "cache_ok s" and "distinct urls" and "set urls \<inter> fst ` set (lru s) = {}"
      and "\<forall>u \<in> set urls. list_all is_ascii (u @ private_key s)"
  shows "map fst (lru (sign_all s urls)) = take lru_maxsize (rev urls @ map fst (lru s))"
  using assms
proof (induction urls arbitrary: s)
  case Nil
  then show ?case by (simp add: cache_ok_def)
next
  case (Cons u us)
  let ?s = "snd (encode_signed_url s u)"
  have k: "map fst (lru ?s) = take lru_maxsize (u # map fst (lru s))"
    using Cons.prems by (intro keys_after_miss) auto
  have "set (map fst (lru ?s)) \<subseteq> insert u (fst ` set (lru s))"
    unfolding k using set_take_subset [of lru_maxsize "u # map fst (lru s)"] by auto
  then have d: "set us \<inter> fst ` set (lru ?s) = {}"
    using Cons.prems by auto
  have "map fst (lru (sign_all ?s us)) = take lru_maxsize (rev us @ map fst (lru ?s))"
    using Cons.prems d by (intro Cons.IH) (auto simp: cache_ok_encode_signed_url)
  then show ?case
    by (simp add: k take_append_take del: take_append)
qed

lemma length_numbered_urls [simp]: "length (numbered_urls n) = n"
  by (induction n) simp_all

lemma set_numbered_urls:
  "set (numbered_urls n) = (\<lambda>k. ''http://h/?q='' @ replicate k (CHR ''x'')) ` {..<n}"
  by (induction n) (auto simp: lessThan_Suc)

lemma distinct_numbered_urls: "distinct (numbered_urls n)"
  by (induction n) (auto simp: set_numbered_urls)

lemma ascii_numbered_urls:
  "u \<in> set (numbered_urls n) \<Longrightarrow> list_all is_ascii (u @ ''secret'')"
  by (auto simp: set_numbered_urls is_ascii_def list_all_iff)

lemma numbered_urls_Nil [simp]: "numbered_urls n = [] \<longleftrightarrow> n = 0"
  using length_numbered_urls [of n] length_0_conv by metis

lemma hd_numbered_urls: "0 < n \<Longrightarrow> hd (numbered_urls n) = ''http://h/?q=''"
proof (induction n)
  case (Suc n)
  then show ?case
    by (cases "n = 0") (simp_all add: hd_append)
qed simp

lemma oldest_dropped:
  "distinct xs \<Longrightarrow> xs \<noteq> [] \<Longrightarrow> hd xs \<notin> set (take (length xs - 1) (rev xs))"
  by (cases xs) auto

lemma keys_sample_client:
  "map fst (lru (sign_all sample_client (numbered_urls n))) = take lru_maxsize (rev (numbered_urls n))"
proof -
  have pk: "private_key sample_client = ''secret''" and lr: "lru sample_client = []"
    by (simp_all add: sample_client_def GameJoltAPI_def)
  have c: "cache_ok sample_client"
    by (simp add: sample_client_def cache_ok_init)
  have d: "set (numbered_urls n) \<inter> fst ` set (lru sample_client) = {}"
    by (simp add: lr)
  have a: "\<forall>u \<in> set (numbered_urls n). list_all is_ascii (u @ private_key sample_client)"
    unfolding pk by (blast intro: ascii_numbered_urls)
  from keys_sign_all [OF c distinct_numbered_urls d a] show ?thesis
    by (simp add: lr)
qed

lemma key_set_sample_client:
  "fst ` set (lru (sign_all sample_client (numbered_urls n))) =
     set (take lru_maxsize (rev (numbered_urls n)))"
  using keys_sample_client [of n] by (metis set_map)

text \<open>
  C4, as the specification words it, fails: after 128 distinct URLs have been signed the
  first of them is in the cache, and signing a 129th removes it.
\<close>

theorem cache_eviction_counterexample:
  "distinct (numbered_urls 129) \<and> hd (numbered_urls 129) = ''http://h/?q='' \<and>
   ''http://h/?q='' \<in> fst ` set (lru (sign_all sample_client (numbered_urls 128))) \<and>
   ''http://h/?q='' \<notin> fst ` set (lru (sign_all sample_client (numbered_urls 129)))"
proof -
  have a: "hd (numbered_urls 128) = ''http://h/?q=''"
    and b: "hd (numbered_urls 129) = ''http://h/?q=''"
    by (simp_all add: hd_numbered_urls)
  have "hd (numbered_urls 128) \<in> set (numbered_urls 128)"
    by (rule hd_in_set) simp
  then have in128: "''http://h/?q='' \<in> set (take lru_maxsize (rev (numbered_urls 128)))"
    by (simp add: a lru_maxsize_def)
  have "hd (numbered_urls 129) \<notin>
          set (take (length (numbered_urls 129) - 1) (rev (numbered_urls 129)))"
    by (rule oldest_dropped) (simp_all add: distinct_numbered_urls)
  then have out129: "''http://h/?q='' \<notin> set (take lru_maxsize (rev (numbered_urls 129)))"
    by (simp add: b lru_maxsize_def)
  from in128 out129 b show ?thesis
    by (simp add: key_set_sample_client distinct_numbered_urls)
qed

lemma map_fst_filter_keys:
  "map fst (filter (\<lambda>p. fst p \<noteq> u) xs) = filter (\<lambda>k. k \<noteq> u) (map fst xs)"
  by (induction xs) auto

lemma lru_after_sign:
  assumes "cache_ok s" and "list_all is_ascii (url @ private_key s)"
  shows "lru (snd (encode_signed_url s url)) =
           take 128 ((url, url @ ''&signature='' @
                        hexdigest (sha1 (map of_char (url @ private_key s)))) #
                     filter (\<lambda>p. fst p \<noteq> url) (lru s))"
proof -
  let ?sig = "url @ ''&signature='' @ hexdigest (sha1 (map of_char (url @ private_key s)))"
  have sg: "sign_url (private_key s) url = Inr ?sig"
    using assms(2) by (simp add: sign_url_eq)
  have len: "length (lru s) \<le> 128"
    using assms(1) by (simp add: cache_ok_def lru_maxsize_def)
  show ?thesis
  proof (cases "map_of (lru s) url")
    case (Some r)
    with assms(1) have "sign_url (private_key s) url = Inr r"
      by (rule cached_is_signed)
    with sg have r: "r = ?sig"
      by simp
    have "length (filter (\<lambda>p. fst p \<noteq> url) (lru s)) < length (lru s)"
      using Some by (rule hit_shrinks)
    with len have "length (filter (\<lambda>p. fst p \<noteq> url) (lru s)) < 128"
      by simp
    then show ?thesis
      by (simp add: lru_after_hit [OF Some] r)
  next
    case None
    then have "url \<notin> fst ` set (lru s)"
      by (simp add: map_of_eq_None_iff)
    then have f: "filter (\<lambda>p. fst p \<noteq> url) (lru s) = lru s"
      by (auto simp: filter_id_conv)
    from len show ?thesis
      by (simp add: lru_after_miss [OF None sg] f lru_maxsize_def butlast_conv_take)
  qed
qed

text \<open>
  C4, amended. The cache holds at most 128 entries, kept in the order of their last use,
  the most recent first. Signing a URL puts its entry first, moving it there when the URL
  is cached already, keeps the other entries in their order and, when that makes 129,
  drops the last one, which is the least recently used. A URL that cannot be signed
  leaves the cache as it is. So in a process with one client every entry is kept as long
  as the cache holds fewer than 128 entries or the URL is cached already, and signing a
  URL that is not cached when the cache holds 128 entries removes the least recently used
  entry and keeps the other 127.
\<close>

theorem signature_cache_bounded:
  assumes "cache_ok s"
  shows "length (lru (snd (encode_signed_url s url))) \<le> 128 \<and>
         (list_all is_ascii (url @ private_key s) \<longrightarrow>
            lru (snd (encode_signed_url s url)) =
              take 128 ((url, url @ ''&signature='' @
                           hexdigest (sha1 (map of_char (url @ private_key s)))) #
                        filter (\<lambda>p. fst p \<noteq> url) (lru s))) \<and>
         (\<not> list_all is_ascii (url @ private_key s) \<longrightarrow> snd (encode_signed_url s url) = s) \<and>
         (length (lru s) < 128 \<or> url \<in> fst ` set (lru s) \<longrightarrow>
            set (lru s) \<subseteq> set (lru (snd (encode_signed_url s url)))) \<and>
         (length (lru s) = 128 \<and> url \<notin> fst ` set (lru s) \<and>
          list_all is_ascii (url @ private_key s) \<longrightarrow>
            last (lru s) \<notin> set (lru (snd (encode_signed_url s url))) \<and>
            set (butlast (lru s)) \<subseteq> set (lru (snd (encode_signed_url s url))))"
proof (intro conjI impI)
  show "length (lru (snd (encode_signed_url s url))) \<le> 128"
    using cache_ok_encode_signed_url [OF assms, of url]
    by (simp add: cache_ok_def lru_maxsize_def)
next
  assume "list_all is_ascii (url @ private_key s)"
  with assms show "lru (snd (encode_signed_url s url)) =
              take 128 ((url, url @ ''&signature='' @
                           hexdigest (sha1 (map of_char (url @ private_key s)))) #
                        filter (\<lambda>p. fst p \<noteq> url) (lru s))"
    by (rule lru_after_sign)
next
  assume "\<not> list_all is_ascii (url @ private_key s)"
  with assms show "snd (encode_signed_url s url) = s"
    by (simp add: encode_signed_url_non_ascii)
next
  assume h: "length (lru s) < 128 \<or> url \<in> fst ` set (lru s)"
  show "set (lru s) \<subseteq> set (lru (snd (encode_signed_url s url)))"
  proof (cases "map_of (lru s) url")
    case (Some r)
    have "v = r" if "(url, v) \<in> set (lru s)" for v
    proof -
      have "map_of (lru s) url = Some v"
        using assms that by (intro map_of_is_SomeI) (simp_all add: cache_ok_def)
      with Some show ?thesis by simp
    qed
    then show ?thesis
      by (auto simp: lru_after_hit [OF Some])
  next
    case None
    then have "url \<notin> fst ` set (lru s)"
      by (simp add: map_of_eq_None_iff)
    with h have small: "length (lru s) < 128"
      by simp
    show ?thesis
    proof (cases "sign_url (private_key s) url")
      case (Inl e)
      with None show ?thesis
        by (simp add: lru_after_error)
    next
      case (Inr r)
      with None small show ?thesis
        by (auto simp: lru_after_miss lru_maxsize_def)
    qed
  qed
next
  assume h: "length (lru s) = 128 \<and> url \<notin> fst ` set (lru s) \<and>
             list_all is_ascii (url @ private_key s)"
  then have n: "map_of (lru s) url = None"
    by (simp add: map_of_eq_None_iff)
  obtain r where r: "sign_url (private_key s) url = Inr r"
    using h by (simp add: sign_url_eq)
  have l: "lru (snd (encode_signed_url s url)) = (url, r) # butlast (lru s)"
    using h by (simp add: lru_after_miss [OF n r] lru_maxsize_def)
  have ne: "lru s \<noteq> []"
    using h by auto
  have "distinct (lru s)"
    using assms by (auto simp: cache_ok_def distinct_map)
  then have "distinct (butlast (lru s) @ [last (lru s)])"
    using ne by simp
  then have "last (lru s) \<notin> set (butlast (lru s))"
    by simp
  moreover have "last (lru s) \<noteq> (url, r)"
    using h last_in_set [OF ne] by force
  ultimately show "last (lru s) \<notin> set (lru (snd (encode_signed_url s url)))"
    by (simp add: l)
  show "set (butlast (lru s)) \<subseteq> set (lru (snd (encode_signed_url s url)))"
    by (auto simp: l)
qed

text \<open>
  The witness: 128 URLs fill the cache; signing the first of them again is a hit, which
  makes the second the least recently used; a new URL then removes the second and leaves
  the first in the cache.
\<close>

lemma keys_of_step:
  assumes "xs' = take n ((u, r) # filter (\<lambda>p. fst p \<noteq> u) xs)"
  shows "map fst xs' = take n (u # filter (\<lambda>k. k \<noteq> u) (map fst xs))"
  unfolding assms by (simp add: take_map [symmetric] map_fst_filter_keys)

lemma first_two_numbered_urls:
  "\<exists>R. numbered_urls (Suc (Suc n)) = ''http://h/?q='' # ''http://h/?q=x'' # R"
proof (induction n)
  case 0
  show ?case by simp
next
  case (Suc n)
  then obtain R where R: "numbered_urls (Suc (Suc n)) = ''http://h/?q='' # ''http://h/?q=x'' # R"
    by blast
  have "numbered_urls (Suc (Suc (Suc n))) =
          numbered_urls (Suc (Suc n)) @ [''http://h/?q='' @ replicate (Suc (Suc n)) (CHR ''x'')]"
    by (rule numbered_urls.simps)
  then have "numbered_urls (Suc (Suc (Suc n))) =
          ''http://h/?q='' # ''http://h/?q=x'' #
          (R @ [''http://h/?q='' @ replicate (Suc (Suc n)) (CHR ''x'')])"
    by (simp only: R append_Cons)
  then show ?case by blast
qed

lemma hit_then_miss:
  assumes "distinct (a # b # R)" and "length R = 126" and "new \<notin> set (a # b # R)"
  shows "take 128 (new # filter (\<lambda>k. k \<noteq> new)
           (take 128 (a # filter (\<lambda>k. k \<noteq> a) (rev (a # b # R))))) = new # a # rev R"
proof -
  have "filter (\<lambda>k. k \<noteq> a) (rev R) = rev R"
    using assms(1) by (auto simp: filter_id_conv)
  then have 1: "filter (\<lambda>k. k \<noteq> a) (rev (a # b # R)) = rev R @ [b]"
    using assms(1) by auto
  have 2: "take 128 (a # rev R @ [b]) = a # rev R @ [b]"
    using assms(2) by simp
  have "filter (\<lambda>k. k \<noteq> new) (rev R) = rev R"
    using assms(3) by (auto simp: filter_id_conv)
  then have 3: "filter (\<lambda>k. k \<noteq> new) (a # rev R @ [b]) = a # rev R @ [b]"
    using assms(3) by auto
  have 4: "take 128 (new # a # rev R @ [b]) = new # a # rev R"
    using assms(2) by simp
  show ?thesis
    by (simp only: 1 2 3 4)
qed

theorem signature_cache_bounded_witness:
  "''http://h/?q='' \<in> fst ` set (lru (sign_all sample_client (numbered_urls 128))) \<and>
   ''http://h/?q=x'' \<in> fst ` set (lru (sign_all sample_client (numbered_urls 128))) \<and>
   ''http://h/?q='' \<in> fst ` set (lru (snd (encode_signed_url
       (snd (encode_signed_url (sign_all sample_client (numbered_urls 128)) ''http://h/?q=''))
       ''http://h/?new=1''))) \<and>
   ''http://h/?q=x'' \<notin> fst ` set (lru (snd (encode_signed_url
       (snd (encode_signed_url (sign_all sample_client (numbered_urls 128)) ''http://h/?q=''))
       ''http://h/?new=1'')))"
proof -
  let ?s0 = "sign_all sample_client (numbered_urls 128)"
  let ?s1 = "snd (encode_signed_url ?s0 ''http://h/?q='')"
  let ?s2 = "snd (encode_signed_url ?s1 ''http://h/?new=1'')"
  obtain R where nu: "numbered_urls 128 = ''http://h/?q='' # ''http://h/?q=x'' # R"
    using first_two_numbered_urls [of 126] by auto
  have d: "distinct (''http://h/?q='' # ''http://h/?q=x'' # R)"
    using distinct_numbered_urls [of 128] by (simp only: nu)
  have len: "length R = 126"
    using length_numbered_urls [of 128] by (simp add: nu)
  have "''http://h/?new=1'' \<notin> set (numbered_urls 128)"
    by (auto simp: set_numbered_urls)
  then have new: "''http://h/?new=1'' \<notin> set (''http://h/?q='' # ''http://h/?q=x'' # R)"
    by (simp only: nu simp_thms)
  have "map fst (lru ?s0) = rev (numbered_urls 128)"
    by (simp add: keys_sample_client lru_maxsize_def)
  then have k0: "map fst (lru ?s0) = rev (''http://h/?q='' # ''http://h/?q=x'' # R)"
    by (subst nu [symmetric])
  have c0: "cache_ok ?s0"
    by (simp add: cache_ok_sign_all sample_client_def cache_ok_init)
  then have c1: "cache_ok ?s1"
    by (rule cache_ok_encode_signed_url)
  have pk: "private_key ?s0 = ''secret''" "private_key ?s1 = ''secret''"
    by (simp_all add: sample_client_def GameJoltAPI_def)
  have a0: "list_all is_ascii (''http://h/?q='' @ private_key ?s0)"
    and a1: "list_all is_ascii (''http://h/?new=1'' @ private_key ?s1)"
    by (simp_all only: pk) (simp_all add: is_ascii_def)
  from signature_cache_bounded [OF c0, of "''http://h/?q=''"] a0
  have "lru ?s1 = take 128 ((''http://h/?q='', ''http://h/?q='' @ ''&signature='' @
                      hexdigest (sha1 (map of_char (''http://h/?q='' @ private_key ?s0)))) #
                    filter (\<lambda>p. fst p \<noteq> ''http://h/?q='') (lru ?s0))"
    by blast
  then have k1: "map fst (lru ?s1) =
                   take 128 (''http://h/?q='' # filter (\<lambda>k. k \<noteq> ''http://h/?q='')
                     (rev (''http://h/?q='' # ''http://h/?q=x'' # R)))"
    by (simp only: keys_of_step k0)
  from signature_cache_bounded [OF c1, of "''http://h/?new=1''"] a1
  have "lru ?s2 = take 128 ((''http://h/?new=1'', ''http://h/?new=1'' @ ''&signature='' @
                      hexdigest (sha1 (map of_char (''http://h/?new=1'' @ private_key ?s1)))) #
                    filter (\<lambda>p. fst p \<noteq> ''http://h/?new=1'') (lru ?s1))"
    by blast
  then have "map fst (lru ?s2) =
               take 128 (''http://h/?new=1'' # filter (\<lambda>k. k \<noteq> ''http://h/?new=1'')
                 (take 128 (''http://h/?q='' # filter (\<lambda>k. k \<noteq> ''http://h/?q='')
                    (rev (''http://h/?q='' # ''http://h/?q=x'' # R)))))"
    by (simp only: keys_of_step k1)
  then have k2: "map fst (lru ?s2) = ''http://h/?new=1'' # ''http://h/?q='' # rev R"
    by (simp only: hit_then_miss [OF d len new])
  have s: "fst ` set (lru t) = set (map fst (lru t))" for t :: client
    by simp
  have "''http://h/?q=x'' \<notin> set (''http://h/?new=1'' # ''http://h/?q='' # rev R)"
    using d by auto
  moreover have "''http://h/?q='' \<in> set (''http://h/?new=1'' # ''http://h/?q='' # rev R)"
    by simp
  moreover have "''http://h/?q='' \<in> set (rev (''http://h/?q='' # ''http://h/?q=x'' # R))"
    and "''http://h/?q=x'' \<in> set (rev (''http://h/?q='' # ''http://h/?q=x'' # R))"
    by simp_all
  ultimately show ?thesis
    by (simp only: s k0 k2 simp_thms)
qed

text \<open>
  Over a whole run: after a new client has signed a sequence of URLs, the cache holds the
  128 most recently used of them, the most recent first.
\<close>

lemma sign_all_snoc: "sign_all s (urls @ [u]) = snd (encode_signed_url (sign_all s urls) u)"
  by (induction urls arbitrary: s) simp_all

lemma take_filter_take:
  "distinct xs \<Longrightarrow>
     take n (filter (\<lambda>k. k \<noteq> u) (take (Suc n) xs)) = take n (filter (\<lambda>k. k \<noteq> u) xs)"
proof (induction xs arbitrary: n)
  case Nil
  then show ?case by simp
next
  case (Cons x xs)
  show ?case
  proof (cases n)
    case 0
    then show ?thesis by simp
  next
    case (Suc m)
    show ?thesis
    proof (cases "x = u")
      case True
      with Cons.prems have "filter (\<lambda>k. k \<noteq> u) xs = xs"
        and "filter (\<lambda>k. k \<noteq> u) (take (Suc m) xs) = take (Suc m) xs"
        by (auto simp: filter_id_conv dest: in_set_takeD)
      with True Suc show ?thesis by simp
    next
      case False
      with Cons Suc show ?thesis by simp
    qed
  qed
qed

lemma remdups_snoc: "remdups (xs @ [u]) = filter (\<lambda>k. k \<noteq> u) (remdups xs) @ [u]"
  by (induction xs) auto

lemma cache_holds_most_recent:
  assumes "\<forall>u \<in> set urls. list_all is_ascii (u @ key)"
  shows "map fst (lru (sign_all (GameJoltAPI gid key user tok) urls)) =
           take 128 (rev (remdups urls))"
  using assms
proof (induction urls rule: rev_induct)
  case Nil
  then show ?case by (simp add: GameJoltAPI_def)
next
  case (snoc u urls)
  let ?s = "sign_all (GameJoltAPI gid key user tok) urls"
  have c: "cache_ok ?s"
    by (simp add: cache_ok_sign_all cache_ok_init)
  have pk: "private_key ?s = key"
    by (simp add: GameJoltAPI_def)
  have a: "list_all is_ascii (u @ private_key ?s)"
    using snoc.prems by (simp add: GameJoltAPI_def)
  have ih: "map fst (lru ?s) = take 128 (rev (remdups urls))"
    using snoc by simp
  have "map fst (lru (snd (encode_signed_url ?s u))) =
          take 128 (u # filter (\<lambda>k. k \<noteq> u) (map fst (lru ?s)))"
    using lru_after_sign [OF c a] by (rule keys_of_step)
  also have "\<dots> = u # take 127 (filter (\<lambda>k. k \<noteq> u) (take 128 (rev (remdups urls))))"
    by (simp add: ih)
  also have "\<dots> = u # take 127 (filter (\<lambda>k. k \<noteq> u) (rev (remdups urls)))"
    using take_filter_take [of "rev (remdups urls)" 127 u] by simp
  also have "\<dots> = take 128 (rev (remdups (urls @ [u])))"
    by (simp add: remdups_snoc rev_filter)
  finally show ?case
    by (simp add: sign_all_snoc)
qed

section \<open>Calls leave the client's fields alone\<close>

lemma unchanged_refl: "unchanged s s"
  by (simp add: unchanged_def)

lemma unchanged_trans: "unchanged s s' \<Longrightarrow> unchanged s' s'' \<Longrightarrow> unchanged s s''"
  by (auto simp: unchanged_def)

lemma unchanged_encode_signed_url: "unchanged s (snd (encode_signed_url s url))"
  by (simp add: unchanged_def encode_signed_url_def split: option.splits sum.splits)

lemma unchanged_submit: "unchanged s (snd (submit s endpoint vals))"
proof -
  obtain x s' where e: "encode_signed_url s (unsigned_url endpoint (heap s ! vals)) = (x, s')"
    by force
  with unchanged_encode_signed_url [of s "unsigned_url endpoint (heap s ! vals)"]
  have "unchanged s s'"
    by simp
  with e show ?thesis
    by (cases x) (auto simp: submit_def Let_def unchanged_def)
qed

lemma unchanged_after_values:
  assumes "unchanged s (snd r)"
  shows "unchanged s (snd (case r of ((endpoint, vals), s') \<Rightarrow> submit s' endpoint vals))"
  using assms unchanged_submit unchanged_trans
  by (cases r) (auto simp: split_def)

lemma unchanged_session_open_values:
  assumes "values_ref s < length (heap s)"
  shows "unchanged s (snd (session_open_values s))"
  using assms
  by (simp add: session_open_values_def unchanged_def dict_copy_def dict_setitem_def Let_def nth_append)

lemma unchanged_session_ping_values:
  assumes "values_ref s < length (heap s)"
  shows "unchanged s (snd (session_ping_values s idle))"
  using assms
  by (simp add: session_ping_values_def unchanged_def dict_copy_def dict_setitem_def Let_def nth_append)

lemma unchanged_session_close_values:
  assumes "values_ref s < length (heap s)"
  shows "unchanged s (snd (session_close_values s))"
  using assms
  by (simp add: session_close_values_def unchanged_def dict_copy_def dict_setitem_def Let_def nth_append)

lemma unchanged_trophies_fetch_values:
  assumes "values_ref s < length (heap s)"
  shows "unchanged s (snd (trophies_fetch_values s achieved trophy_id))"
  using assms
  by (simp add: trophies_fetch_values_def unchanged_def dict_copy_def dict_setitem_def Let_def nth_append)

lemma unchanged_trophies_add_achieved_values:
  assumes "values_ref s < length (heap s)"
  shows "unchanged s (snd (trophies_add_achieved_values s trophy_id))"
  using assms
  by (simp add: trophies_add_achieved_values_def unchanged_def dict_copy_def dict_setitem_def Let_def nth_append)

lemma unchanged_scores_fetch_values:
  assumes "values_ref s < length (heap s)"
  shows "unchanged s (snd (scores_fetch_values s table_id limit))"
  using assms
  by (simp add: scores_fetch_values_def unchanged_def dict_copy_def dict_setitem_def Let_def nth_append)

lemma unchanged_scores_add_values:
  assumes "values_ref s < length (heap s)"
  shows "unchanged s (snd (scores_add_values s sort_val score table_id))"
  using assms
  by (simp add: scores_add_values_def unchanged_def dict_copy_def dict_setitem_def Let_def nth_append)

lemma unchanged_scores_tables_values:
  assumes "values_ref s < length (heap s)"
  shows "unchanged s (snd (scores_tables_values s))"
  by (simp add: scores_tables_values_def unchanged_def)

lemma unchanged_data_store_fetch_values:
  assumes "values_ref s < length (heap s)"
  shows "unchanged s (snd (data_store_fetch_values s key public))"
  using assms
  by (simp add: data_store_fetch_values_def unchanged_def dict_copy_def dict_setitem_def Let_def nth_append)

lemma unchanged_data_store_set_values:
  assumes "values_ref s < length (heap s)"
  shows "unchanged s (snd (data_store_set_values s key data public))"
  using assms
  by (simp add: data_store_set_values_def unchanged_def dict_copy_def dict_setitem_def Let_def nth_append)

lemma unchanged_data_store_update_values:
  assumes "values_ref s < length (heap s)"
  shows "unchanged s (snd (data_store_update_values s key operation val public))"
  using assms
  by (simp add: data_store_update_values_def unchanged_def dict_copy_def dict_setitem_def Let_def nth_append)

lemma unchanged_data_store_remove_values:
  assumes "values_ref s < length (heap s)"
  shows "unchanged s (snd (data_store_remove_values s key public))"
  using assms
  by (simp add: data_store_remove_values_def unchanged_def dict_copy_def dict_setitem_def Let_def nth_append)

lemma unchanged_data_store_get_keys_values:
  assumes "values_ref s < length (heap s)"
  shows "unchanged s (snd (data_store_get_keys_values s public))"
  using assms
  by (simp add: data_store_get_keys_values_def unchanged_def dict_copy_def dict_setitem_def Let_def nth_append)

text \<open>
  C10. Whatever method is called with whatever arguments, and whether it returns a future
  or raises, the client afterwards has the same \<^verbatim>\<open>_game_id\<close>, \<^verbatim>\<open>_private_key\<close>,
  \<^verbatim>\<open>_base_url\<close>, \<^verbatim>\<open>username\<close> and \<^verbatim>\<open>token\<close>, and \<^verbatim>\<open>_values\<close> is the
  same dictionary object with the same contents: the methods write to a copy, and
  \<^verbatim>\<open>scores_tables\<close>, which passes the object itself, only has it read.
\<close>

theorem perform_unchanged:
  assumes "values_ref s < length (heap s)"
  shows "unchanged s (snd (perform debug s c))"
proof (cases c)
  case Session_open
  then show ?thesis
    using assms unchanged_session_open_values
    by (simp add: session_open_def unchanged_after_values)
next
  case (Session_ping x1)
  then show ?thesis
    using assms unchanged_session_ping_values
    by (simp add: session_ping_def unchanged_after_values)
next
  case Session_close
  then show ?thesis
    using assms unchanged_session_close_values
    by (simp add: session_close_def unchanged_after_values)
next
  case (Trophies_fetch x1 x2)
  then show ?thesis
    using assms unchanged_trophies_fetch_values
    by (simp add: trophies_fetch_def unchanged_after_values)
next
  case (Trophies_add_achieved x1)
  then show ?thesis
    using assms unchanged_trophies_add_achieved_values
    by (simp add: trophies_add_achieved_def unchanged_after_values)
next
  case (Scores_fetch x1 x2)
  then show ?thesis
    using assms unchanged_scores_fetch_values
    by (simp add: scores_fetch_def unchanged_after_values)
next
  case (Scores_add x1 x2 x3)
  then show ?thesis
    using assms unchanged_scores_add_values
    by (simp add: scores_add_def unchanged_after_values)
next
  case Scores_tables
  then show ?thesis
    using assms unchanged_scores_tables_values
    by (simp add: scores_tables_def unchanged_after_values)
next
  case (Data_store_fetch x1 x2)
  then show ?thesis
    using assms unchanged_data_store_fetch_values
    by (simp add: data_store_fetch_def unchanged_after_values)
next
  case (Data_store_set x1 x2 x3)
  then show ?thesis
    using assms unchanged_data_store_set_values
    by (simp add: data_store_set_def unchanged_after_values)
next
  case (Data_store_update x1 x2 x3 x4)
  then show ?thesis
    using assms unchanged_data_store_update_values unchanged_refl
    by (simp add: data_store_update_def unchanged_after_values)
next
  case (Data_store_remove x1 x2)
  then show ?thesis
    using assms unchanged_data_store_remove_values
    by (simp add: data_store_remove_def unchanged_after_values)
next
  case (Data_store_get_keys x1)
  then show ?thesis
    using assms unchanged_data_store_get_keys_values
    by (simp add: data_store_get_keys_def unchanged_after_values)
qed

theorem perform_unchanged_witness:
  "unchanged sample_client (snd (perform True sample_client Scores_tables)) \<and>
   unchanged signed_in_client
     (snd (perform True signed_in_client (Scores_add (PInt 42) PNone (PInt 7)))) \<and>
   unchanged sample_client
     (snd (perform False sample_client
             (Data_store_update (PStr ''k'') (PStr ''invalid'') (PStr ''1'') (PBool False))))"
proof -
  have a: "values_ref sample_client < length (heap sample_client)"
    and b: "values_ref signed_in_client < length (heap signed_in_client)"
    by (simp_all add: sample_client_def signed_in_client_def GameJoltAPI_def)
  from perform_unchanged [OF a, where debug = True and c = Scores_tables]
       perform_unchanged [OF b, where debug = True and c = "Scores_add (PInt 42) PNone (PInt 7)"]
       perform_unchanged [OF a, where debug = False
         and c = "Data_store_update (PStr ''k'') (PStr ''invalid'') (PStr ''1'') (PBool False)"]
  show ?thesis by simp
qed

section \<open>The parameters of a request\<close>

lemma scores_add_params:
  assumes "values_ref s < length (heap s)"
  shows "request_params (scores_add_values s sort_val score table_id) =
           (let d = heap s ! values_ref s;
                d = (if truthy (username s) \<and> truthy (token s)
                     then setitem (setitem d ''username'' (username s)) ''user_token'' (token s)
                     else setitem d ''guest'' (PStr ''Guest''));
                d = setitem (setitem d ''sort'' sort_val) ''score'' (py_or score sort_val)
            in if truthy table_id then setitem d ''table_id'' table_id else d)"
  using assms
  by (simp add: request_params_def scores_add_values_def dict_copy_def dict_setitem_def Let_def
      nth_append)

lemma trophies_fetch_params:
  assumes "values_ref s < length (heap s)"
  shows "request_params (trophies_fetch_values s achieved trophy_id) =
           (let d = setitem (setitem (heap s ! values_ref s) ''username'' (username s))
                      ''user_token'' (token s);
                d = (if truthy achieved then setitem d ''achieved'' (PStr ''true'') else d)
            in if truthy trophy_id then setitem d ''trophy_id'' trophy_id else d)"
  using assms
  by (simp add: request_params_def trophies_fetch_values_def dict_copy_def dict_setitem_def
      Let_def nth_append)

lemma values_ok_init: "values_ok (GameJoltAPI gid key user tok)"
  by (simp add: values_ok_def GameJoltAPI_def)

text \<open>
  C7. \<open>scores_add\<close> submits the dictionary that \<open>scores_add_values\<close> assembles. When
  \<^verbatim>\<open>username\<close> and \<^verbatim>\<open>token\<close> are both set (both true in Python's sense: neither
  \<^verbatim>\<open>None\<close> nor empty), it holds \<^verbatim>\<open>username\<close> and \<^verbatim>\<open>user_token\<close> with these values
  and no \<^verbatim>\<open>guest\<close>; otherwise it holds \<^verbatim>\<open>guest\<close> with the value \<^verbatim>\<open>Guest\<close> and
  neither \<^verbatim>\<open>username\<close> nor \<^verbatim>\<open>user_token\<close>.
\<close>

theorem scores_add_identity_rule:
  assumes "values_ok s"
  shows "scores_add s sort_val score table_id =
           submit (snd (scores_add_values s sort_val score table_id))
             (fst (fst (scores_add_values s sort_val score table_id)))
             (snd (fst (scores_add_values s sort_val score table_id))) \<and>
         (truthy (username s) \<and> truthy (token s) \<longrightarrow>
            map_of (request_params (scores_add_values s sort_val score table_id)) ''username'' =
              Some (username s) \<and>
            map_of (request_params (scores_add_values s sort_val score table_id)) ''user_token'' =
              Some (token s) \<and>
            ''guest'' \<notin> keys (request_params (scores_add_values s sort_val score table_id))) \<and>
         (\<not> (truthy (username s) \<and> truthy (token s)) \<longrightarrow>
            map_of (request_params (scores_add_values s sort_val score table_id)) ''guest'' =
              Some (PStr ''Guest'') \<and>
            ''username'' \<notin> keys (request_params (scores_add_values s sort_val score table_id)) \<and>
            ''user_token'' \<notin> keys (request_params (scores_add_values s sort_val score table_id)))"
proof -
  have r: "values_ref s < length (heap s)"
    and b: "heap s ! values_ref s = [(''format'', PStr ''json''), (''game_id'', game_id s)]"
    using assms by (simp_all add: values_ok_def)
  have "scores_add s sort_val score table_id =
           submit (snd (scores_add_values s sort_val score table_id))
             (fst (fst (scores_add_values s sort_val score table_id)))
             (snd (fst (scores_add_values s sort_val score table_id)))"
    by (simp add: scores_add_def split_def)
  then show ?thesis
    by (simp add: scores_add_params [OF r] b keys_def Let_def)
qed

theorem scores_add_identity_rule_witness:
  "map_of (request_params (scores_add_values sample_client (PInt 42) PNone PNone)) ''guest'' =
     Some (PStr ''Guest'') \<and>
   ''username'' \<notin> keys (request_params (scores_add_values sample_client (PInt 42) PNone PNone)) \<and>
   map_of (request_params (scores_add_values signed_in_client (PInt 42) PNone PNone)) ''username'' =
     Some (PStr ''ann'') \<and>
   ''guest'' \<notin> keys (request_params (scores_add_values signed_in_client (PInt 42) PNone PNone))"
proof -
  have a: "values_ok sample_client" and b: "values_ok signed_in_client"
    by (simp_all add: sample_client_def signed_in_client_def values_ok_init)
  have u: "username sample_client = PNone" "username signed_in_client = PStr ''ann''"
    "token signed_in_client = PStr ''t0k''"
    by (simp_all add: sample_client_def signed_in_client_def GameJoltAPI_def)
  from scores_add_identity_rule [OF a, of "PInt 42" PNone PNone]
       scores_add_identity_rule [OF b, of "PInt 42" PNone PNone] u
  show ?thesis by simp
qed


text \<open>
  For all arguments: \<open>trophies_fetch\<close> submits the dictionary that
  \<open>trophies_fetch_values\<close> assembles. It holds \<^verbatim>\<open>trophy_id\<close> exactly when the argument is true in Python's
  sense, and \<^verbatim>\<open>achieved\<close>, with the value \<^verbatim>\<open>true\<close>, exactly when that argument is
  true, whether or not a trophy ID is given.
\<close>

lemma trophies_fetch_parameters:
  assumes "values_ok s"
  shows "trophies_fetch s achieved trophy_id =
           submit (snd (trophies_fetch_values s achieved trophy_id))
             (fst (fst (trophies_fetch_values s achieved trophy_id)))
             (snd (fst (trophies_fetch_values s achieved trophy_id))) \<and>
         (truthy trophy_id \<longrightarrow>
            map_of (request_params (trophies_fetch_values s achieved trophy_id)) ''trophy_id'' =
              Some trophy_id) \<and>
         (\<not> truthy trophy_id \<longrightarrow>
            ''trophy_id'' \<notin> keys (request_params (trophies_fetch_values s achieved trophy_id))) \<and>
         (truthy achieved \<longrightarrow>
            map_of (request_params (trophies_fetch_values s achieved trophy_id)) ''achieved'' =
              Some (PStr ''true'')) \<and>
         (\<not> truthy achieved \<longrightarrow>
            ''achieved'' \<notin> keys (request_params (trophies_fetch_values s achieved trophy_id)))"
proof -
  have r: "values_ref s < length (heap s)"
    and b: "heap s ! values_ref s = [(''format'', PStr ''json''), (''game_id'', game_id s)]"
    using assms by (simp_all add: values_ok_def)
  have "trophies_fetch s achieved trophy_id =
           submit (snd (trophies_fetch_values s achieved trophy_id))
             (fst (fst (trophies_fetch_values s achieved trophy_id)))
             (snd (fst (trophies_fetch_values s achieved trophy_id)))"
    by (simp add: trophies_fetch_def split_def)
  then show ?thesis
    by (simp add: trophies_fetch_params [OF r] b keys_def Let_def)
qed

lemma trophies_fetch_parameters_example:
  "map_of (request_params (trophies_fetch_values signed_in_client (PBool True) (PInt 5)))
     ''trophy_id'' = Some (PInt 5) \<and>
   map_of (request_params (trophies_fetch_values signed_in_client (PBool True) (PInt 5)))
     ''achieved'' = Some (PStr ''true'') \<and>
   ''achieved'' \<notin> keys (request_params (trophies_fetch_values signed_in_client (PBool False) (PInt 5))) \<and>
   ''trophy_id'' \<notin> keys (request_params (trophies_fetch_values signed_in_client (PBool True) PNone))"
proof -
  have b: "values_ok signed_in_client"
    by (simp add: signed_in_client_def values_ok_init)
  from trophies_fetch_parameters [OF b, of "PBool True" "PInt 5"]
       trophies_fetch_parameters [OF b, of "PBool False" "PInt 5"]
       trophies_fetch_parameters [OF b, of "PBool True" PNone]
  show ?thesis by simp
qed

section \<open>Every call keeps the invariants\<close>

text \<open>
  A client made by \<open>GameJoltAPI\<close> satisfies \<open>values_ok\<close> and \<open>cache_ok\<close>
  (\<open>values_ok_init\<close>, \<open>cache_ok_init\<close>), and every call keeps both, so the properties
  above hold in every state a client reaches through its methods.
\<close>

lemma heap_encode_signed_url [simp]: "heap (snd (encode_signed_url s url)) = heap s"
  by (simp add: encode_signed_url_def split: option.splits sum.splits)

lemma submit_cases:
  "snd (submit s endpoint vals) = snd (encode_signed_url s (unsigned_url endpoint (heap s ! vals))) \<or>
   (\<exists>q. snd (submit s endpoint vals) =
          (snd (encode_signed_url s (unsigned_url endpoint (heap s ! vals))))\<lparr>executor := q\<rparr>)"
  by (cases "encode_signed_url s (unsigned_url endpoint (heap s ! vals))")
     (auto simp: submit_def Let_def split: sum.splits)

lemma cache_ok_submit:
  assumes "cache_ok s"
  shows "cache_ok (snd (submit s endpoint vals))"
  using submit_cases [of s endpoint vals]
        cache_ok_encode_signed_url [OF assms, of "unsigned_url endpoint (heap s ! vals)"]
  by (auto simp: cache_ok_def)

lemma heap_submit [simp]: "heap (snd (submit s endpoint vals)) = heap s"
  using submit_cases [of s endpoint vals] by auto

lemma cache_ok_after_values:
  assumes "cache_ok s" and "keeps s (snd r)"
  shows "cache_ok (snd (case r of ((endpoint, vals), s') \<Rightarrow> submit s' endpoint vals))"
proof -
  have "cache_ok (snd r)"
    using assms by (simp add: cache_ok_def keeps_def)
  then show ?thesis
    by (cases r) (auto simp: split_def cache_ok_submit)
qed

lemma values_ok_after_values:
  assumes "values_ok s" and "keeps s (snd r)" and "unchanged s (snd r)"
  shows "values_ok (snd (case r of ((endpoint, vals), s') \<Rightarrow> submit s' endpoint vals))"
proof -
  have "unchanged s (snd (case r of ((endpoint, vals), s') \<Rightarrow> submit s' endpoint vals))"
    using assms(3) by (rule unchanged_after_values)
  moreover have "length (heap s) \<le>
      length (heap (snd (case r of ((endpoint, vals), s') \<Rightarrow> submit s' endpoint vals)))"
    using assms(2) by (cases r) (auto simp: split_def keeps_def)
  ultimately show ?thesis
    using assms(1) by (auto simp: values_ok_def unchanged_def)
qed

lemma keeps_refl: "keeps s s"
  by (simp add: keeps_def)

lemma keeps_session_open_values: "keeps s (snd (session_open_values s))"
  by (simp add: session_open_values_def keeps_def dict_copy_def dict_setitem_def Let_def)

lemma keeps_session_ping_values: "keeps s (snd (session_ping_values s idle))"
  by (simp add: session_ping_values_def keeps_def dict_copy_def dict_setitem_def Let_def)

lemma keeps_session_close_values: "keeps s (snd (session_close_values s))"
  by (simp add: session_close_values_def keeps_def dict_copy_def dict_setitem_def Let_def)

lemma keeps_trophies_fetch_values: "keeps s (snd (trophies_fetch_values s achieved trophy_id))"
  by (simp add: trophies_fetch_values_def keeps_def dict_copy_def dict_setitem_def Let_def)

lemma keeps_trophies_add_achieved_values: "keeps s (snd (trophies_add_achieved_values s trophy_id))"
  by (simp add: trophies_add_achieved_values_def keeps_def dict_copy_def dict_setitem_def Let_def)

lemma keeps_scores_fetch_values: "keeps s (snd (scores_fetch_values s table_id limit))"
  by (simp add: scores_fetch_values_def keeps_def dict_copy_def dict_setitem_def Let_def)

lemma keeps_scores_add_values: "keeps s (snd (scores_add_values s sort_val score table_id))"
  by (simp add: scores_add_values_def keeps_def dict_copy_def dict_setitem_def Let_def)

lemma keeps_scores_tables_values: "keeps s (snd (scores_tables_values s))"
  by (simp add: scores_tables_values_def keeps_def)

lemma keeps_data_store_fetch_values: "keeps s (snd (data_store_fetch_values s key public))"
  by (simp add: data_store_fetch_values_def keeps_def dict_copy_def dict_setitem_def Let_def)

lemma keeps_data_store_set_values: "keeps s (snd (data_store_set_values s key data public))"
  by (simp add: data_store_set_values_def keeps_def dict_copy_def dict_setitem_def Let_def)

lemma keeps_data_store_update_values: "keeps s (snd (data_store_update_values s key operation val public))"
  by (simp add: data_store_update_values_def keeps_def dict_copy_def dict_setitem_def Let_def)

lemma keeps_data_store_remove_values: "keeps s (snd (data_store_remove_values s key public))"
  by (simp add: data_store_remove_values_def keeps_def dict_copy_def dict_setitem_def Let_def)

lemma keeps_data_store_get_keys_values: "keeps s (snd (data_store_get_keys_values s public))"
  by (simp add: data_store_get_keys_values_def keeps_def dict_copy_def dict_setitem_def Let_def)

lemma cache_ok_perform:
  assumes "cache_ok s"
  shows "cache_ok (snd (perform debug s c))"
proof (cases c)
  case Session_open
  then show ?thesis
    using assms keeps_session_open_values
    by (simp add: session_open_def cache_ok_after_values)
next
  case (Session_ping x1)
  then show ?thesis
    using assms keeps_session_ping_values
    by (simp add: session_ping_def cache_ok_after_values)
next
  case Session_close
  then show ?thesis
    using assms keeps_session_close_values
    by (simp add: session_close_def cache_ok_after_values)
next
  case (Trophies_fetch x1 x2)
  then show ?thesis
    using assms keeps_trophies_fetch_values
    by (simp add: trophies_fetch_def cache_ok_after_values)
next
  case (Trophies_add_achieved x1)
  then show ?thesis
    using assms keeps_trophies_add_achieved_values
    by (simp add: trophies_add_achieved_def cache_ok_after_values)
next
  case (Scores_fetch x1 x2)
  then show ?thesis
    using assms keeps_scores_fetch_values
    by (simp add: scores_fetch_def cache_ok_after_values)
next
  case (Scores_add x1 x2 x3)
  then show ?thesis
    using assms keeps_scores_add_values
    by (simp add: scores_add_def cache_ok_after_values)
next
  case Scores_tables
  then show ?thesis
    using assms keeps_scores_tables_values
    by (simp add: scores_tables_def cache_ok_after_values)
next
  case (Data_store_fetch x1 x2)
  then show ?thesis
    using assms keeps_data_store_fetch_values
    by (simp add: data_store_fetch_def cache_ok_after_values)
next
  case (Data_store_set x1 x2 x3)
  then show ?thesis
    using assms keeps_data_store_set_values
    by (simp add: data_store_set_def cache_ok_after_values)
next
  case (Data_store_update x1 x2 x3 x4)
  then show ?thesis
    using assms keeps_data_store_update_values
    by (simp add: data_store_update_def cache_ok_after_values)
next
  case (Data_store_remove x1 x2)
  then show ?thesis
    using assms keeps_data_store_remove_values
    by (simp add: data_store_remove_def cache_ok_after_values)
next
  case (Data_store_get_keys x1)
  then show ?thesis
    using assms keeps_data_store_get_keys_values
    by (simp add: data_store_get_keys_def cache_ok_after_values)
qed

lemma values_ok_perform:
  assumes "values_ok s"
  shows "values_ok (snd (perform debug s c))"
proof (cases c)
  case Session_open
  have "values_ref s < length (heap s)"
    using assms by (simp add: values_ok_def)
  with Session_open show ?thesis
    using assms keeps_session_open_values unchanged_session_open_values
    by (simp add: session_open_def values_ok_after_values)
next
  case (Session_ping x1)
  have "values_ref s < length (heap s)"
    using assms by (simp add: values_ok_def)
  with Session_ping show ?thesis
    using assms keeps_session_ping_values unchanged_session_ping_values
    by (simp add: session_ping_def values_ok_after_values)
next
  case Session_close
  have "values_ref s < length (heap s)"
    using assms by (simp add: values_ok_def)
  with Session_close show ?thesis
    using assms keeps_session_close_values unchanged_session_close_values
    by (simp add: session_close_def values_ok_after_values)
next
  case (Trophies_fetch x1 x2)
  have "values_ref s < length (heap s)"
    using assms by (simp add: values_ok_def)
  with Trophies_fetch show ?thesis
    using assms keeps_trophies_fetch_values unchanged_trophies_fetch_values
    by (simp add: trophies_fetch_def values_ok_after_values)
next
  case (Trophies_add_achieved x1)
  have "values_ref s < length (heap s)"
    using assms by (simp add: values_ok_def)
  with Trophies_add_achieved show ?thesis
    using assms keeps_trophies_add_achieved_values unchanged_trophies_add_achieved_values
    by (simp add: trophies_add_achieved_def values_ok_after_values)
next
  case (Scores_fetch x1 x2)
  have "values_ref s < length (heap s)"
    using assms by (simp add: values_ok_def)
  with Scores_fetch show ?thesis
    using assms keeps_scores_fetch_values unchanged_scores_fetch_values
    by (simp add: scores_fetch_def values_ok_after_values)
next
  case (Scores_add x1 x2 x3)
  have "values_ref s < length (heap s)"
    using assms by (simp add: values_ok_def)
  with Scores_add show ?thesis
    using assms keeps_scores_add_values unchanged_scores_add_values
    by (simp add: scores_add_def values_ok_after_values)
next
  case Scores_tables
  have "values_ref s < length (heap s)"
    using assms by (simp add: values_ok_def)
  with Scores_tables show ?thesis
    using assms keeps_scores_tables_values unchanged_scores_tables_values
    by (simp add: scores_tables_def values_ok_after_values)
next
  case (Data_store_fetch x1 x2)
  have "values_ref s < length (heap s)"
    using assms by (simp add: values_ok_def)
  with Data_store_fetch show ?thesis
    using assms keeps_data_store_fetch_values unchanged_data_store_fetch_values
    by (simp add: data_store_fetch_def values_ok_after_values)
next
  case (Data_store_set x1 x2 x3)
  have "values_ref s < length (heap s)"
    using assms by (simp add: values_ok_def)
  with Data_store_set show ?thesis
    using assms keeps_data_store_set_values unchanged_data_store_set_values
    by (simp add: data_store_set_def values_ok_after_values)
next
  case (Data_store_update x1 x2 x3 x4)
  have "values_ref s < length (heap s)"
    using assms by (simp add: values_ok_def)
  with Data_store_update show ?thesis
    using assms keeps_data_store_update_values unchanged_data_store_update_values
    by (simp add: data_store_update_def values_ok_after_values)
next
  case (Data_store_remove x1 x2)
  have "values_ref s < length (heap s)"
    using assms by (simp add: values_ok_def)
  with Data_store_remove show ?thesis
    using assms keeps_data_store_remove_values unchanged_data_store_remove_values
    by (simp add: data_store_remove_def values_ok_after_values)
next
  case (Data_store_get_keys x1)
  have "values_ref s < length (heap s)"
    using assms by (simp add: values_ok_def)
  with Data_store_get_keys show ?thesis
    using assms keeps_data_store_get_keys_values unchanged_data_store_get_keys_values
    by (simp add: data_store_get_keys_def values_ok_after_values)
qed

section \<open>SHA-1 on a known input\<close>

text \<open>
  The first example of FIPS 180: the digest of the three bytes \<^verbatim>\<open>abc\<close> is
  \<^verbatim>\<open>a9993e36 4706816a ba3e2571 7850c26c 9cd0d89d\<close>. The steps are the padded block, its
  message schedule, the 80 rounds, and the final sum.
\<close>

lemma replicate_numeral: "replicate (numeral k) x = x # replicate (pred_numeral k) x"
  by (simp add: numeral_eq_Suc)

lemma schedule_numeral:
  "schedule (numeral n) ws =
     schedule (pred_numeral n) (rotl 1 (ws ! 2 XOR ws ! 7 XOR ws ! 13 XOR ws ! 15) # ws)"
  by (simp add: numeral_eq_Suc)

lemma zip_upt: "zip [i..<j] (w # ws) = (if i < j then (i, w) # zip [Suc i..<j] ws else [])"
  by (simp add: upt_rec)

lemma abc_block:
  "be_words (sha1_pad [0x61, 0x62, 0x63]) = [0x61626380, 0, 0, 0, 0, 0, 0, 0, 0, 0, 0, 0, 0, 0, 0, 0x18]"
  by (simp add: sha1_pad_def pad_zeros_def length_bytes_def replicate_numeral)

lemma abc_schedule:
  "rev (schedule 64 (rev [0x61626380, 0, 0, 0, 0, 0, 0, 0, 0, 0, 0, 0, 0, 0, 0, 0x18])) =
      [1633837952, 0, 0, 0, 0, 0, 0, 0, 0, 0, 0, 0, 0, 0, 0, 24, 3267675904, 0, 48, 
      2240384513, 0, 96, 185801731, 48, 2240384705, 371603462, 0, 384, 743206924, 240, 
      2477765895, 1486413896, 2392494594, 1536, 2972827888, 371604422, 1321128990, 
      1650688161, 371603462, 6336, 3537975492, 3840, 989548665, 2307785957, 3803855915, 
      24768, 87701453, 1950713159, 3667138029, 641206806, 1650688929, 1321161950, 943043659, 
      62976, 512018339, 2564836760, 1696405152, 1650822305, 1166361814, 1146637495, 
      2074109465, 1669377698, 182801001, 1652246945, 2094292125, 983040, 4216354106, 
      3966199272, 3124505570, 6340608, 976735493, 1166362356, 3092880854, 940186150, 
      31465987, 3888919638, 3873835881, 16124416, 1469443919, 2184054905]"
  by (simp add: schedule_numeral rotl_def)

lemma abc_rounds:
  "foldl sha1_round (0x67452301, 0xEFCDAB89, 0x98BADCFE, 0x10325476, 0xC3D2E1F0)
     (zip [0..<80]
      [1633837952, 0, 0, 0, 0, 0, 0, 0, 0, 0, 0, 0, 0, 0, 0, 24, 3267675904, 0, 48, 
      2240384513, 0, 96, 185801731, 48, 2240384705, 371603462, 0, 384, 743206924, 240, 
      2477765895, 1486413896, 2392494594, 1536, 2972827888, 371604422, 1321128990, 
      1650688161, 371603462, 6336, 3537975492, 3840, 989548665, 2307785957, 3803855915, 
      24768, 87701453, 1950713159, 3667138029, 641206806, 1650688929, 1321161950, 943043659, 
      62976, 512018339, 2564836760, 1696405152, 1650822305, 1166361814, 1146637495, 
      2074109465, 1669377698, 182801001, 1652246945, 2094292125, 983040, 4216354106, 
      3966199272, 3124505570, 6340608, 976735493, 1166362356, 3092880854, 940186150, 
      31465987, 3888919638, 3873835881, 16124416, 1469443919, 2184054905]) =
   (1112808245, 1463342561, 562251891, 1746824694, 3640522413)"
  by (simp add: sha1_f_def sha1_k_def zip_upt rotl_def)

lemma abc_state:
  "sha1_block sha1_init [0x61626380, 0, 0, 0, 0, 0, 0, 0, 0, 0, 0, 0, 0, 0, 0, 0x18] =
     (0xA9993E36, 0x4706816A, 0xBA3E2571, 0x7850C26C, 0x9CD0D89D)"
  by (simp only: sha1_init_def sha1_block.simps abc_schedule abc_rounds) simp

lemma sha1_abc:
  "hexdigest (sha1 (map of_char ''abc'')) = ''a9993e364706816aba3e25717850c26c9cd0d89d''"
proof -
  have "sha1 [0x61, 0x62, 0x63] =
          concat (map word_bytes [0xA9993E36, 0x4706816A, 0xBA3E2571, 0x7850C26C, 0x9CD0D89D])"
    by (simp add: sha1_def abc_block abc_state del: sha1_block.simps)
  then show ?thesis
    by (simp add: word_bytes_def hexdigest_def hex_digit_def lower_hex_def)
qed

text \<open>The signer on that input: the URL \<^verbatim>\<open>ab\<close> signed with the private key \<^verbatim>\<open>c\<close>.\<close>

lemma sign_url_abc: "sign_url ''c'' ''ab'' = Inr ''ab&signature=a9993e364706816aba3e25717850c26c9cd0d89d''"
  using sha1_abc by (simp add: sign_url_eq is_ascii_def)

end
